(* ===== verification/Prelude.thy ===== *)
theory Prelude
  imports Complex_Main
begin

text \<open>
  Shared vocabulary of the development: the result type of JavaScript calls that may throw
  or never return, strings and their number formats, property-ordered JavaScript objects and
  the interface (a locale) the components use them through.

  A \<^typ>\<open>char\<close> stands for one UTF-16 code unit in the range U+0000 to U+00FF; a
  \<^typ>\<open>string\<close> for a JavaScript string of such units.  Names inherited from
  \<open>Object.prototype\<close> (such as \<open>constructor\<close>) are not used as property names.
\<close>

named_theorems js_ret \<open>unfolding of the result monad\<close>
named_theorems js_str \<open>string and digit arithmetic\<close>

section \<open>Results of JavaScript calls\<close>

text \<open>\<open>Ret x\<close>: returned \<open>x\<close>; \<open>Throw e\<close>: raised an exception of
  class \<open>e\<close>; \<open>Hang\<close>: a loop of the callee never ends.\<close>

datatype 'a jsret = Ret 'a | Throw string | Hang

definition jbind :: "'a jsret \<Rightarrow> ('a \<Rightarrow> 'b jsret) \<Rightarrow> 'b jsret" where
  "jbind m f = (case m of Ret x \<Rightarrow> f x | Throw e \<Rightarrow> Throw e | Hang \<Rightarrow> Hang)"

lemma jbind_simps [simp]:
  "jbind (Ret x) f = f x"
  "jbind (Throw e) f = Throw e"
  "jbind Hang f = Hang"
  by (simp_all add: jbind_def)

lemma jbind_Ret [simp]: "jbind m Ret = m"
  by (cases m) simp_all

lemma jbind_assoc [js_ret]: "jbind (jbind m f) g = jbind m (\<lambda>x. jbind (f x) g)"
  by (cases m) simp_all

lemma jbind_eq_Ret [js_ret]: "(jbind m f = Ret y) = (\<exists>x. m = Ret x \<and> f x = Ret y)"
  by (cases m) simp_all

lemma jbind_cong [fundef_cong]:
  "m = m' \<Longrightarrow> (\<And>x. m' = Ret x \<Longrightarrow> f x = g x) \<Longrightarrow> jbind m f = jbind m' g"
  by (cases m') simp_all

text \<open>A loop \<open>for (i = 0; i < xs.length; i++) state = body(xs[i], state)\<close>.\<close>

fun jfold :: "('x \<Rightarrow> 's \<Rightarrow> 's jsret) \<Rightarrow> 'x list \<Rightarrow> 's \<Rightarrow> 's jsret" where
  "jfold f [] s = Ret s"
| "jfold f (x # xs) s = jbind (f x s) (jfold f xs)"

lemma jfold_append: "jfold f (xs @ ys) s = jbind (jfold f xs s) (jfold f ys)"
proof (induction xs arbitrary: s)
  case (Cons x xs)
  then show ?case by (cases "f x s") simp_all
qed simp

lemma jfold_inv:
  assumes "jfold f xs s = Ret t" and "P s"
    and "\<And>x u v. x \<in> set xs \<Longrightarrow> P u \<Longrightarrow> f x u = Ret v \<Longrightarrow> P v"
  shows "P t"
  using assms by (induction xs arbitrary: s) (auto simp: jbind_eq_Ret)

section \<open>Characters and strings\<close>

definition code :: "char \<Rightarrow> nat" where
  "code c = of_char c"

definition is_digit :: "char \<Rightarrow> bool" where
  "is_digit c \<longleftrightarrow> 48 \<le> code c \<and> code c \<le> 57"

definition is_lower :: "char \<Rightarrow> bool" where
  "is_lower c \<longleftrightarrow> 97 \<le> code c \<and> code c \<le> 122"

definition is_upper :: "char \<Rightarrow> bool" where
  "is_upper c \<longleftrightarrow> 65 \<le> code c \<and> code c \<le> 90"

definition is_hex :: "char \<Rightarrow> bool" where
  "is_hex c \<longleftrightarrow> is_digit c \<or> (97 \<le> code c \<and> code c \<le> 102) \<or> (65 \<le> code c \<and> code c \<le> 70)"

text \<open>The class \<open>\<backslash>w\<close> of JavaScript patterns: letters, digits and underscore.\<close>

definition is_word :: "char \<Rightarrow> bool" where
  "is_word c \<longleftrightarrow> is_digit c \<or> is_lower c \<or> is_upper c \<or> c = CHR ''_''"

text \<open>White space and line terminators of JavaScript within the modelled range.\<close>

definition is_space :: "char \<Rightarrow> bool" where
  "is_space c \<longleftrightarrow> code c \<in> {9, 10, 11, 12, 13, 32, 160}"

text \<open>\<open>x.split(/\s+/)\<close>\<close>

fun split_space :: "string \<Rightarrow> string \<Rightarrow> string list" where
  "split_space [] w = [w]"
| "split_space [c] w = (if is_space c then [w, []] else [w @ [c]])"
| "split_space (c # d # s) w =
     (if is_space c then (if is_space d then split_space (d # s) w else w # split_space (d # s) [])
      else split_space (d # s) (w @ [c]))"

definition to_upper :: "char \<Rightarrow> char" where
  "to_upper c = (if is_lower c then char_of (code c - 32) else c)"

definition to_lower :: "char \<Rightarrow> char" where
  "to_lower c = (if is_upper c then char_of (code c + 32) else c)"

definition trim_by :: "(char \<Rightarrow> bool) \<Rightarrow> string \<Rightarrow> string" where
  "trim_by p s = rev (dropWhile p (rev (dropWhile p s)))"

definition trim :: "string \<Rightarrow> string" where
  "trim s = trim_by is_space s"

fun split_on :: "char \<Rightarrow> string \<Rightarrow> string list" where
  "split_on c [] = [[]]"
| "split_on c (x # xs) =
     (if x = c then [] # split_on c xs
      else (case split_on c xs of [] \<Rightarrow> [[x]] | y # ys \<Rightarrow> (x # y) # ys))"

fun join :: "string \<Rightarrow> string list \<Rightarrow> string" where
  "join sep [] = []"
| "join sep [x] = x"
| "join sep (x # y # ys) = x @ sep @ join sep (y # ys)"

lemma split_on_not_Nil [simp]: "split_on c s \<noteq> []"
  by (induction s) (auto split: list.splits)

lemma split_on_no_sep: "c \<notin> set s \<Longrightarrow> split_on c s = [s]"
  by (induction s) auto

lemma split_on_append: "c \<notin> set s \<Longrightarrow> split_on c (s @ c # t) = s # split_on c t"
  by (induction s) auto

lemma split_on_join [js_str]:
  assumes "xs \<noteq> []" and "\<And>x. x \<in> set xs \<Longrightarrow> c \<notin> set x"
  shows "split_on c (join [c] xs) = xs"
  using assms
  by (induction "[c]" xs rule: join.induct) (auto simp: split_on_no_sep split_on_append)

lemma set_split_on: "x \<in> set (split_on c s) \<Longrightarrow> set x \<subseteq> set s - {c}"
proof (induction s arbitrary: x)
  case Nil
  then show ?case by simp
next
  case (Cons a s)
  then show ?case by (cases "split_on c s") (fastforce split: if_splits)+
qed

section \<open>Digits and radix notation\<close>

definition digit_char :: "nat \<Rightarrow> char" where
  "digit_char d = (if d < 10 then char_of (48 + d) else char_of (87 + d))"

definition digit_val :: "char \<Rightarrow> nat" where
  "digit_val c =
     (if is_digit c then code c - 48
      else if is_lower c then code c - 87
      else if is_upper c then code c - 55 else 36)"

text \<open>\<open>Number.prototype.toString(radix)\<close> of a non-negative integer.\<close>

function radix_string :: "nat \<Rightarrow> nat \<Rightarrow> string" where
  "radix_string b n =
     (if b < 2 \<or> n < b then [digit_char n]
      else radix_string b (n div b) @ [digit_char (n mod b)])"
  by pat_completeness auto
termination
  by (relation "measure snd") auto

declare radix_string.simps [simp del]

abbreviation dec_string :: "nat \<Rightarrow> string" where
  "dec_string \<equiv> radix_string 10"

abbreviation hex_string :: "nat \<Rightarrow> string" where
  "hex_string \<equiv> radix_string 16"

definition nat_of_radix :: "nat \<Rightarrow> string \<Rightarrow> nat" where
  "nat_of_radix b s = foldl (\<lambda>n c. n * b + digit_val c) 0 s"

lemma code_char_of [simp]: "n < 256 \<Longrightarrow> code (char_of n) = n"
  by (simp add: code_def)

lemma code_less [simp]: "code c < 256"
  by (simp add: code_def)

lemma char_of_code [simp]: "char_of (code c) = c"
  by (simp add: code_def)

lemma digit_val_char [js_str]: "d < 36 \<Longrightarrow> digit_val (digit_char d) = d"
  by (auto simp: digit_val_def digit_char_def is_digit_def is_lower_def is_upper_def)

lemma nat_of_radix_Nil [simp]: "nat_of_radix b [] = 0"
  by (simp add: nat_of_radix_def)

lemma nat_of_radix_snoc [js_str]:
  "nat_of_radix b (s @ [c]) = nat_of_radix b s * b + digit_val c"
  by (simp add: nat_of_radix_def)

lemma radix_round_trip [js_str]:
  assumes "2 \<le> b" and "b \<le> 36"
  shows "nat_of_radix b (radix_string b n) = n"
  using assms
proof (induction b n rule: radix_string.induct)
  case (1 b n)
  show ?case
  proof (cases "n < b")
    case True
    with 1 show ?thesis
      by (simp add: radix_string.simps [of b n] nat_of_radix_def digit_val_char)
  next
    case False
    with 1 have "nat_of_radix b (radix_string b (n div b)) = n div b" by simp
    moreover have "n mod b < 36"
      using 1 by (meson less_le_trans mod_less_divisor pos2 less_le_trans)
    ultimately show ?thesis
      using False 1 by (simp add: radix_string.simps [of b n] nat_of_radix_snoc digit_val_char)
  qed
qed

lemma radix_string_not_Nil [simp]: "radix_string b n \<noteq> []"
  by (simp add: radix_string.simps [of b n])

lemma radix_string_chars:
  assumes "2 \<le> b"
  shows "c \<in> set (radix_string b n) \<Longrightarrow> \<exists>d < b. c = digit_char d"
  using assms
proof (induction b n rule: radix_string.induct)
  case (1 b n)
  show ?case
  proof (cases "n < b")
    case True
    with 1 show ?thesis by (auto simp: radix_string.simps [of b n])
  next
    case False
    with 1 have "c \<in> set (radix_string b (n div b)) \<or> c = digit_char (n mod b)"
      by (auto simp: radix_string.simps [of b n])
    with 1 False show ?thesis
      by (metis less_le_trans mod_less_divisor not_less pos2)
  qed
qed

lemma radix_string_length:
  assumes "2 \<le> b" and "n < b ^ k" and "0 < k"
  shows "length (radix_string b n) \<le> k"
  using assms
proof (induction b n arbitrary: k rule: radix_string.induct)
  case (1 b n)
  show ?case
  proof (cases "n < b")
    case True
    with 1 show ?thesis by (simp add: radix_string.simps [of b n])
  next
    case False
    with 1 obtain j where k: "k = Suc j" and "0 < j"
      by (cases k; cases "k - 1") auto
    moreover from 1 k have "n div b < b ^ j"
      by (simp add: less_mult_imp_div_less mult.commute)
    ultimately have "length (radix_string b (n div b)) \<le> j"
      using 1 False by auto
    with False k show ?thesis by (simp add: radix_string.simps [of b n])
  qed
qed

lemma digit_char_dec: "d < 10 \<Longrightarrow> is_digit (digit_char d)"
  by (simp add: digit_char_def is_digit_def)

lemma digit_char_hex: "d < 16 \<Longrightarrow> is_hex (digit_char d)"
  by (auto simp: digit_char_def is_digit_def is_hex_def)

lemma dec_string_digits: "c \<in> set (dec_string n) \<Longrightarrow> is_digit c"
  using radix_string_chars [of 10 c n] digit_char_dec by auto

lemma hex_string_hex: "c \<in> set (hex_string n) \<Longrightarrow> is_hex c"
  using radix_string_chars [of 16 c n] digit_char_hex by auto

section \<open>JavaScript objects in property order\<close>

text \<open>
  An object is the list of its own enumerable properties in the order \<open>for ... in\<close> and
  \<open>Object.keys\<close> visit them: keys that are canonical array indices first and in ascending
  order, then the other keys in the order they were created.
\<close>

type_synonym 'v jsobj = "(string \<times> 'v) list"

definition array_index :: "string \<Rightarrow> nat option" where
  "array_index k =
     (if k \<noteq> [] \<and> (\<forall>c \<in> set k. is_digit c) \<and> (k = ''0'' \<or> hd k \<noteq> CHR ''0'')
         \<and> nat_of_radix 10 k < 4294967295
      then Some (nat_of_radix 10 k) else None)"

definition oget :: "'v jsobj \<Rightarrow> string \<Rightarrow> 'v option" where
  "oget m k = map_of m k"

definition okeys :: "'v jsobj \<Rightarrow> string list" where
  "okeys m = map fst m"

fun insert_index :: "nat \<Rightarrow> string \<Rightarrow> 'v \<Rightarrow> 'v jsobj \<Rightarrow> 'v jsobj" where
  "insert_index n k v [] = [(k, v)]"
| "insert_index n k v ((k', w) # m) =
     (case array_index k' of
        None \<Rightarrow> (k, v) # (k', w) # m
      | Some j \<Rightarrow> if n < j then (k, v) # (k', w) # m else (k', w) # insert_index n k v m)"

definition oset :: "string \<Rightarrow> 'v \<Rightarrow> 'v jsobj \<Rightarrow> 'v jsobj" where
  "oset k v m =
     (if k \<in> set (map fst m) then map (\<lambda>(k', w). (k', if k' = k then v else w)) m
      else (case array_index k of None \<Rightarrow> m @ [(k, v)] | Some n \<Rightarrow> insert_index n k v m))"

definition odel :: "string \<Rightarrow> 'v jsobj \<Rightarrow> 'v jsobj" where
  "odel k m = filter (\<lambda>(k', _). k' \<noteq> k) m"

definition owf :: "'v jsobj \<Rightarrow> bool" where
  "owf m \<longleftrightarrow> distinct (map fst m)"

lemma oget_Nil [simp]: "oget [] k = None"
  by (simp add: oget_def)

lemma set_insert_index: "set (insert_index n k v m) = insert (k, v) (set m)"
  by (induction n k v m rule: insert_index.induct) (auto split: option.splits)

lemma keys_insert_index: "set (map fst (insert_index n k v m)) = insert k (set (map fst m))"
  by (simp add: set_insert_index)

lemma distinct_insert_index:
  "k \<notin> set (map fst m) \<Longrightarrow> distinct (map fst (insert_index n k v m)) = distinct (map fst m)"
proof (induction n k v m rule: insert_index.induct)
  case (2 n k v k' w m)
  then show ?case
    using keys_insert_index [of n k v m] by (auto split: option.splits)
qed simp

lemma map_of_insert_index:
  "k \<notin> set (map fst m) \<Longrightarrow>
     map_of (insert_index n k v m) x = (if x = k then Some v else map_of m x)"
proof (induction m)
  case (Cons p m)
  then show ?case by (cases p; cases "array_index (fst p)") auto
qed simp

lemma map_of_replace:
  "map_of (map (\<lambda>(k', w). (k', if k' = k then v else w)) m) x =
     (if x = k \<and> k \<in> set (map fst m) then Some v else map_of m x)"
proof (induction m)
  case (Cons p m)
  then show ?case by (cases p; cases "x = k"; cases "fst p = x") simp_all
qed simp

lemma map_of_snoc:
  "k \<notin> set (map fst m) \<Longrightarrow> map_of (m @ [(k, v)]) x = (if x = k then Some v else map_of m x)"
  by (induction m) auto

lemma oget_oset [simp]: "oget (oset k v m) x = (if x = k then Some v else oget m x)"
  unfolding oget_def oset_def
  by (simp add: map_of_replace map_of_insert_index map_of_snoc del: map_of_append split: option.split)

lemma oget_odel [simp]: "oget (odel k m) x = (if x = k then None else oget m x)"
  unfolding oget_def odel_def by (induction m) auto

lemma map_fst_replace: "map fst (map (\<lambda>(k', w). (k', f k' w)) m) = map fst m"
  by (induction m) auto

lemma okeys_oset: "set (okeys (oset k v m)) = insert k (set (okeys m))"
  unfolding okeys_def oset_def
  by (simp add: map_fst_replace keys_insert_index del: map_map set_map split: option.split)
    (auto simp del: set_map)

lemma okeys_odel: "set (okeys (odel k m)) = set (okeys m) - {k}"
  by (auto simp: okeys_def odel_def)

lemma owf_Nil [simp]: "owf []"
  by (simp add: owf_def)

lemma owf_oset [simp]: "owf m \<Longrightarrow> owf (oset k v m)"
  unfolding owf_def oset_def
  by (simp add: map_fst_replace distinct_insert_index del: map_map set_map split: option.split)

lemma owf_odel [simp]: "owf m \<Longrightarrow> owf (odel k m)"
  unfolding owf_def odel_def by (rule distinct_map_filter)

lemma oget_None: "oget m k = None \<longleftrightarrow> k \<notin> set (okeys m)"
  by (simp add: oget_def okeys_def map_of_eq_None_iff)

lemma oget_Some: "owf m \<Longrightarrow> oget m k = Some v \<longleftrightarrow> (k, v) \<in> set m"
  by (simp add: oget_def owf_def)

lemma okeys_oset_mem: "k \<in> set (okeys m) \<Longrightarrow> okeys (oset k v m) = okeys m"
  by (auto simp: okeys_def oset_def)

lemma okeys_oset_old: "oget m k = Some w \<Longrightarrow> okeys (oset k v m) = okeys m"
  by (rule okeys_oset_mem) (metis oget_None option.distinct(1))

lemma oset_oset_old: "oget m k = Some x \<Longrightarrow> oset k v (oset k w m) = oset k v m"
proof -
  assume "oget m k = Some x"
  then have "k \<in> set (map fst m)" using oget_None [of m k] by (auto simp: okeys_def)
  moreover have "k \<in> set (map fst (oset k w m))" using okeys_oset [of k w m] by (simp add: okeys_def)
  ultimately show ?thesis
    unfolding oset_def [of k v] by (simp only: if_True) (auto simp: oset_def)
qed

text \<open>
  What the components rely on: a store of named properties with lookup, assignment and
  deletion.  The laws are proved once for the property lists above; a client's lemma is
  proved from the laws alone.
\<close>

locale property_store =
  fixes lookup :: "'m \<Rightarrow> string \<Rightarrow> 'v option"
    and assign :: "string \<Rightarrow> 'v \<Rightarrow> 'm \<Rightarrow> 'm"
    and remove :: "string \<Rightarrow> 'm \<Rightarrow> 'm"
    and keys :: "'m \<Rightarrow> string list"
    and wf :: "'m \<Rightarrow> bool"
  assumes lookup_assign: "lookup (assign k v m) x = (if x = k then Some v else lookup m x)"
    and lookup_remove: "lookup (remove k m) x = (if x = k then None else lookup m x)"
    and lookup_keys: "lookup m x = None \<longleftrightarrow> x \<notin> set (keys m)"
    and wf_assign: "wf m \<Longrightarrow> wf (assign k v m)"
    and wf_remove: "wf m \<Longrightarrow> wf (remove k m)"
begin

text \<open>Assigning a batch of properties, as \<open>Object.assign\<close> does: the last one wins.\<close>

lemma lookup_assign_all:
  "lookup (fold (\<lambda>(k, v). assign k v) ps m) x =
     (case map_of (rev ps) x of Some v \<Rightarrow> Some v | None \<Rightarrow> lookup m x)"
proof (induction ps arbitrary: m)
  case Nil
  then show ?case by simp
next
  case (Cons p ps)
  then show ?case
    by (cases p) (auto simp: lookup_assign map_add_def split: option.splits)
qed

lemma wf_assign_all: "wf m \<Longrightarrow> wf (fold (\<lambda>(k, v). assign k v) ps m)"
  by (induction ps arbitrary: m) (auto simp: wf_assign)

lemma lookup_remove_all:
  "lookup (fold remove ks m) x = (if x \<in> set ks then None else lookup m x)"
  by (induction ks arbitrary: m) (auto simp: lookup_remove)

lemma assign_remove_other: "x \<noteq> k \<Longrightarrow> lookup (remove k (assign k v m)) x = lookup m x"
  by (simp add: lookup_assign lookup_remove)

end

interpretation jso: property_store oget oset odel okeys owf
  by unfold_locales (simp_all add: oget_None)

definition oassign :: "'v jsobj \<Rightarrow> 'v jsobj \<Rightarrow> 'v jsobj" where
  "oassign m src = fold (\<lambda>(k, v). oset k v) src m"

lemma map_of_rev_distinct: "distinct (map fst xs) \<Longrightarrow> map_of (rev xs) = map_of xs"
  by (rule map_of_inject_set [THEN iffD2]) (auto simp: rev_map [symmetric])

lemma oget_oassign: "owf src \<Longrightarrow>
  oget (oassign m src) x = (case oget src x of Some v \<Rightarrow> Some v | None \<Rightarrow> oget m x)"
  unfolding oassign_def jso.lookup_assign_all
  by (simp add: owf_def oget_def map_of_rev_distinct)

lemma owf_oassign: "owf m \<Longrightarrow> owf (oassign m src)"
  unfolding oassign_def by (rule jso.wf_assign_all)

lemma owf_odel_all: "owf m \<Longrightarrow> owf (fold odel ks m)"
  by (induction ks arbitrary: m) simp_all

text \<open>Two-level access \<open>o[a] && o[a][b]\<close>.\<close>

definition oget2 :: "'v jsobj jsobj \<Rightarrow> string \<Rightarrow> string \<Rightarrow> 'v option" where
  "oget2 m a b = Option.bind (oget m a) (\<lambda>i. oget i b)"

text \<open>\<open>if (!o[a]) o[a] = {}; o[a][b] = v\<close>.\<close>

definition oset2 :: "string \<Rightarrow> string \<Rightarrow> 'v \<Rightarrow> 'v jsobj jsobj \<Rightarrow> 'v jsobj jsobj" where
  "oset2 a b v m = oset a (oset b v (case oget m a of None \<Rightarrow> [] | Some i \<Rightarrow> i)) m"

text \<open>\<open>if (o[a]) delete o[a][b]\<close>.\<close>

definition odel2 :: "string \<Rightarrow> string \<Rightarrow> 'v jsobj jsobj \<Rightarrow> 'v jsobj jsobj" where
  "odel2 a b m = (case oget m a of None \<Rightarrow> m | Some i \<Rightarrow> oset a (odel b i) m)"

lemma oget2_oset2 [simp]:
  "oget2 (oset2 a b v m) x y = (if x = a \<and> y = b then Some v else oget2 m x y)"
  by (auto simp: oget2_def oset2_def split: option.splits)

lemma oget2_odel2 [simp]:
  "oget2 (odel2 a b m) x y = (if x = a \<and> y = b then None else oget2 m x y)"
  by (auto simp: oget2_def odel2_def split: option.splits)

lemma oget2_odel [simp]: "oget2 (odel a m) x y = (if x = a then None else oget2 m x y)"
  by (simp add: oget2_def)

lemma oget2_Nil [simp]: "oget2 [] a b = None"
  by (simp add: oget2_def)

definition owf2 :: "'v jsobj jsobj \<Rightarrow> bool" where
  "owf2 m \<longleftrightarrow> owf m \<and> (\<forall>a i. oget m a = Some i \<longrightarrow> owf i)"

lemma owf2_Nil [simp]: "owf2 []"
  by (simp add: owf2_def)

lemma owf2_oset2 [simp]: "owf2 m \<Longrightarrow> owf2 (oset2 a b v m)"
  by (auto simp: owf2_def oset2_def split: option.splits if_splits)

lemma owf2_odel2 [simp]: "owf2 m \<Longrightarrow> owf2 (odel2 a b m)"
  by (auto simp: owf2_def odel2_def split: option.splits if_splits)

lemma owf2_odel [simp]: "owf2 m \<Longrightarrow> owf2 (odel a m)"
  by (auto simp: owf2_def split: if_splits)

end
