(* ===== verification/Regex.thy ===== *)
theory Regex
  imports Prelude
begin

text \<open>
  Regular expressions as JavaScript's \<open>RegExp.prototype.exec\<close> runs them: a
  backtracking matcher that yields every way to match a prefix of the subject, most preferred
  first (greedy repetition, left alternative first), together with the captured groups.  The
  patterns of the components are written as terms of \<open>rexp\<close> that follow the
  source's pattern symbol by symbol.

  The second half holds the equations the component proofs use: the closed form of a repeated
  character class, and of a captured class followed by a character outside the class or by the
  end of the subject, where backtracking never succeeds and the match is determined.
\<close>

datatype rexp =
    REps
  | REnd                       \<comment> \<open>\<open>$\<close>\<close>
  | RChr "char \<Rightarrow> bool"        \<comment> \<open>a character class\<close>
  | RSeq rexp rexp
  | RAlt rexp rexp
  | RStar rexp
  | RGrp nat rexp              \<comment> \<open>capture group number \<open>n\<close>\<close>

type_synonym caps = "(nat \<times> string) list"

text \<open>One more iteration of a starred body is tried only if it consumes something.\<close>

primrec star_match ::
  "(string \<Rightarrow> (caps \<times> string) list) \<Rightarrow> nat \<Rightarrow> string \<Rightarrow> (caps \<times> string) list" where
  "star_match f 0 s = [([], s)]"
| "star_match f (Suc n) s =
     concat (map (\<lambda>(cs, s').
       if length s' < length s then map (\<lambda>(ds, u). (cs @ ds, u)) (star_match f n s') else []) (f s))
     @ [([], s)]"

primrec rmatch :: "rexp \<Rightarrow> string \<Rightarrow> (caps \<times> string) list" where
  "rmatch REps s = [([], s)]"
| "rmatch REnd s = (if s = [] then [([], s)] else [])"
| "rmatch (RChr p) s = (case s of [] \<Rightarrow> [] | c # t \<Rightarrow> if p c then [([], t)] else [])"
| "rmatch (RSeq a b) s =
     concat (map (\<lambda>(cs, s'). map (\<lambda>(ds, u). (cs @ ds, u)) (rmatch b s')) (rmatch a s))"
| "rmatch (RAlt a b) s = rmatch a s @ rmatch b s"
| "rmatch (RStar a) s = star_match (rmatch a) (length s) s"
| "rmatch (RGrp n a) s = map (\<lambda>(cs, s'). (cs @ [(n, take (length s - length s') s)], s')) (rmatch a s)"

definition exec :: "rexp \<Rightarrow> string \<Rightarrow> caps option" where
  "exec r s = (case rmatch r s of [] \<Rightarrow> None | m # _ \<Rightarrow> Some (fst m))"

definition test :: "rexp \<Rightarrow> string \<Rightarrow> bool" where
  "test r s \<longleftrightarrow> rmatch r s \<noteq> []"

text \<open>An unanchored pattern is tried at every position.\<close>

fun search :: "rexp \<Rightarrow> string \<Rightarrow> bool" where
  "search r [] = test r []"
| "search r (c # s) = (test r (c # s) \<or> search r s)"

text \<open>Group \<open>n\<close> of a match: the last capture, \<open>None\<close> for \<open>undefined\<close>.\<close>

definition cap :: "caps \<Rightarrow> nat \<Rightarrow> string option" where
  "cap cs n = map_of (rev cs) n"

section \<open>Derived pattern forms\<close>

definition RLit :: "char \<Rightarrow> rexp" where
  "RLit c = RChr (\<lambda>x. x = c)"

fun RStr :: "string \<Rightarrow> rexp" where
  "RStr [] = REps"
| "RStr (c # s) = RSeq (RLit c) (RStr s)"

definition RPlus :: "rexp \<Rightarrow> rexp" where
  "RPlus r = RSeq r (RStar r)"

definition ROpt :: "rexp \<Rightarrow> rexp" where
  "ROpt r = RAlt r REps"

text \<open>\<open>r{m,m+k}\<close>\<close>

fun RUpTo :: "rexp \<Rightarrow> nat \<Rightarrow> rexp" where
  "RUpTo r 0 = REps"
| "RUpTo r (Suc k) = RAlt (RSeq r (RUpTo r k)) REps"

fun RRep :: "rexp \<Rightarrow> nat \<Rightarrow> nat \<Rightarrow> rexp" where
  "RRep r 0 k = RUpTo r k"
| "RRep r (Suc m) k = RSeq r (RRep r m k)"

fun RCat :: "rexp list \<Rightarrow> rexp" where
  "RCat [] = REps"
| "RCat [r] = r"
| "RCat (r # rs) = RSeq r (RCat rs)"

section \<open>Meaning of the matcher\<close>

inductive rlang :: "rexp \<Rightarrow> string \<Rightarrow> string \<Rightarrow> bool" where
  lang_eps: "rlang REps [] t"
| lang_end: "rlang REnd [] []"
| lang_chr: "p c \<Longrightarrow> rlang (RChr p) [c] t"
| lang_seq: "rlang a u (v @ t) \<Longrightarrow> rlang b v t \<Longrightarrow> rlang (RSeq a b) (u @ v) t"
| lang_altl: "rlang a u t \<Longrightarrow> rlang (RAlt a b) u t"
| lang_altr: "rlang b u t \<Longrightarrow> rlang (RAlt a b) u t"
| lang_star0: "rlang (RStar a) [] t"
| lang_star1: "u \<noteq> [] \<Longrightarrow> rlang a u (v @ t) \<Longrightarrow> rlang (RStar a) v t \<Longrightarrow> rlang (RStar a) (u @ v) t"
| lang_grp: "rlang a u t \<Longrightarrow> rlang (RGrp n a) u t"

inductive_cases rlang_epsE [elim!]: "rlang REps u t"
inductive_cases rlang_endE [elim!]: "rlang REnd u t"
inductive_cases rlang_chrE [elim!]: "rlang (RChr p) u t"
inductive_cases rlang_seqE [elim!]: "rlang (RSeq a b) u t"
inductive_cases rlang_altE [elim!]: "rlang (RAlt a b) u t"
inductive_cases rlang_starE: "rlang (RStar a) u t"
inductive_cases rlang_grpE [elim!]: "rlang (RGrp n a) u t"

lemma in_star_match:
  "(xs, t) \<in> set (star_match f (Suc n) s) \<longleftrightarrow> (xs = [] \<and> t = s) \<or>
     (\<exists>cs s' ds. (cs, s') \<in> set (f s) \<and> length s' < length s \<and>
        (ds, t) \<in> set (star_match f n s') \<and> xs = cs @ ds)"
  by (simp add: split_beta, safe) (force split: if_splits)+

lemma in_rmatch_RSeq:
  "(xs, t) \<in> set (rmatch (RSeq a b) s) \<longleftrightarrow>
     (\<exists>cs s' ds. (cs, s') \<in> set (rmatch a s) \<and> (ds, t) \<in> set (rmatch b s') \<and> xs = cs @ ds)"
  by (simp add: split_beta, safe) force+

declare star_match.simps(2) [simp del]

lemma star_match_sound:
  assumes "\<And>s cs t. (cs, t) \<in> set (f s) \<Longrightarrow> \<exists>u. s = u @ t \<and> rlang a u t"
    and "(cs, t) \<in> set (star_match f n s)"
  shows "\<exists>u. s = u @ t \<and> rlang (RStar a) u t"
  using assms(2)
proof (induction n arbitrary: s cs)
  case 0
  then show ?case by (auto intro: rlang.intros)
next
  case (Suc n)
  then consider "t = s" | cs' s' ds where "(cs', s') \<in> set (f s)" and "length s' < length s"
    and "(ds, t) \<in> set (star_match f n s')"
    by (auto simp: in_star_match)
  then show ?case
  proof cases
    case 1
    then show ?thesis by (auto intro: rlang.intros)
  next
    case 2
    from assms(1) [OF 2(1)] obtain u where u: "s = u @ s'" "rlang a u s'" by blast
    from Suc.IH [OF 2(3)] obtain v where v: "s' = v @ t" "rlang (RStar a) v t" by blast
    with u 2(2) have "rlang (RStar a) (u @ v) t" by (intro lang_star1) auto
    with u v show ?thesis by auto
  qed
qed

lemma rmatch_sound: "(cs, t) \<in> set (rmatch r s) \<Longrightarrow> \<exists>u. s = u @ t \<and> rlang r u t"
proof (induction r arbitrary: s cs t)
  case (RSeq a b)
  then obtain cs' s' ds where "(cs', s') \<in> set (rmatch a s)" and "(ds, t) \<in> set (rmatch b s')"
    by (auto simp only: in_rmatch_RSeq)
  with RSeq.IH obtain u v where "s = u @ s'" "rlang a u s'" "s' = v @ t" "rlang b v t"
    by blast
  then show ?case by (auto intro!: exI [of _ "u @ v"] lang_seq)
next
  case (RStar a)
  then show ?case by (auto intro: star_match_sound)
qed (force intro: rlang.intros split: list.splits if_splits)+

lemma star_match_complete:
  assumes "rlang (RStar a) u t" and "length u \<le> n"
    and f: "\<And>u t. rlang a u t \<Longrightarrow> \<exists>cs. (cs, t) \<in> set (f (u @ t))"
  shows "\<exists>cs. (cs, t) \<in> set (star_match f n (u @ t))"
  using assms(1,2)
proof (induction "RStar a" u t arbitrary: n rule: rlang.induct)
  case (lang_star0 t)
  then show ?case by (cases n) (auto simp: in_star_match)
next
  case (lang_star1 u v t)
  then obtain m where n: "n = Suc m" by (cases n) auto
  with lang_star1 have "length v \<le> m" by (cases u) auto
  with lang_star1 obtain ds where "(ds, t) \<in> set (star_match f m (v @ t))" by blast
  moreover from f [OF lang_star1(2)] obtain cs where "(cs, v @ t) \<in> set (f (u @ v @ t))"
    by auto
  moreover have "length (v @ t) < length (u @ v @ t)" using lang_star1(1) by simp
  ultimately show ?case unfolding n append_assoc in_star_match by blast
qed

lemma rmatch_complete: "rlang r u t \<Longrightarrow> \<exists>cs. (cs, t) \<in> set (rmatch r (u @ t))"
proof (induction r arbitrary: u t)
  case (RSeq a b)
  then obtain v w where u: "u = v @ w" "rlang a v (w @ t)" "rlang b w t" by auto
  from RSeq.IH(1) [OF u(2)] obtain cs where "(cs, w @ t) \<in> set (rmatch a (v @ w @ t))" by auto
  moreover from RSeq.IH(2) [OF u(3)] obtain ds where "(ds, t) \<in> set (rmatch b (w @ t))" by auto
  ultimately show ?case unfolding u(1) append_assoc in_rmatch_RSeq by blast
next
  case (RStar a)
  then show ?case using star_match_complete [OF RStar.prems] by simp
next
  case (RAlt a b)
  then show ?case by fastforce
next
  case (RGrp n a)
  then obtain cs where "(cs, t) \<in> set (rmatch a (u @ t))" by blast
  then show ?case by force
qed auto

text \<open>The matcher finds a match exactly when the pattern's language has one.\<close>

theorem test_iff_rlang: "test r s \<longleftrightarrow> (\<exists>u t. s = u @ t \<and> rlang r u t)"
proof -
  have "rmatch r s \<noteq> [] \<longleftrightarrow> (\<exists>cs t. (cs, t) \<in> set (rmatch r s))"
    by (cases "rmatch r s") auto
  then show ?thesis
    unfolding test_def using rmatch_sound rmatch_complete by metis
qed

section \<open>Closed forms for character classes\<close>

text \<open>
  \<open>repeats r p m hi\<close>: the pattern \<open>r\<close> takes between \<open>m\<close> and \<open>hi\<close>
  (unbounded for \<open>None\<close>) characters of class \<open>p\<close>, as many as possible first.
\<close>

definition run_len :: "(char \<Rightarrow> bool) \<Rightarrow> nat option \<Rightarrow> string \<Rightarrow> nat" where
  "run_len p hi s = (case hi of None \<Rightarrow> length (takeWhile p s) | Some h \<Rightarrow> min h (length (takeWhile p s)))"

definition repeats :: "rexp \<Rightarrow> (char \<Rightarrow> bool) \<Rightarrow> nat \<Rightarrow> nat option \<Rightarrow> bool" where
  "repeats r p m hi \<longleftrightarrow>
     (\<forall>s. rmatch r s = map (\<lambda>j. ([], drop j s)) (rev [m ..< Suc (run_len p hi s)]))"

definition fits :: "nat \<Rightarrow> nat \<Rightarrow> nat option \<Rightarrow> bool" where
  "fits n m hi \<longleftrightarrow> m \<le> n \<and> (case hi of None \<Rightarrow> True | Some h \<Rightarrow> n \<le> h)"

lemma fits_simps [simp]:
  "fits n m None = (m \<le> n)"
  "fits n m (Some h) = (m \<le> n \<and> n \<le> h)"
  by (simp_all add: fits_def)

lemma rev_upt_Suc: "rev [0..<Suc n] = n # rev [0..<n]"
  by simp

lemma map_shift:
  "map (\<lambda>j. ([] :: caps, drop j s)) (rev [m..<n]) = map (\<lambda>j. ([], drop j (c # s))) (rev [Suc m..<Suc n])"
  by (simp add: map_Suc_upt [symmetric] rev_map [symmetric] del: upt_Suc)

lemma repeats_star: "repeats (RStar (RChr p)) p 0 None"
proof -
  have "star_match (rmatch (RChr p)) (length s) s =
      map (\<lambda>j. ([], drop j s)) (rev [0 ..< Suc (length (takeWhile p s))])" for s
  proof (induction s)
    case Nil
    then show ?case by simp
  next
    case (Cons c s)
    show ?case
    proof (cases "p c")
      case True
      have "[0..<Suc (Suc (length (takeWhile p s)))] = 0 # [Suc 0..<Suc (Suc (length (takeWhile p s)))]"
        by (rule upt_rec [THEN trans]) simp
      then show ?thesis
        using True Cons map_shift [of s 0 "Suc (length (takeWhile p s))" c]
        by (simp add: star_match.simps(2) split_beta del: upt_Suc)
    next
      case False
      then show ?thesis by (simp add: star_match.simps(2))
    qed
  qed
  then show ?thesis by (simp add: repeats_def run_len_def)
qed

lemma repeats_upto: "repeats (RUpTo (RChr p) k) p 0 (Some k)"
proof -
  have "rmatch (RUpTo (RChr p) k) s =
      map (\<lambda>j. ([], drop j s)) (rev [0 ..< Suc (min k (length (takeWhile p s)))])" for s
  proof (induction k arbitrary: s)
    case 0
    then show ?case by simp
  next
    case (Suc k)
    show ?case
    proof (cases s)
      case Nil
      then show ?thesis by simp
    next
      case (Cons c t)
      have "[0..<Suc (Suc (min k (length (takeWhile p t))))] =
          0 # [Suc 0..<Suc (Suc (min k (length (takeWhile p t))))]"
        by (rule upt_rec [THEN trans]) simp
      then show ?thesis
        using Cons Suc [of t] map_shift [of t 0 "Suc (min k (length (takeWhile p t)))" c]
        by (cases "p c") (simp_all add: split_beta del: upt_Suc, simp)
    qed
  qed
  then show ?thesis by (simp add: repeats_def run_len_def)
qed

lemma repeats_step:
  assumes "repeats r p m hi"
  shows "repeats (RSeq (RChr p) r) p (Suc m) (map_option Suc hi)"
  unfolding repeats_def
proof
  fix s
  show "rmatch (RSeq (RChr p) r) s =
      map (\<lambda>j. ([], drop j s)) (rev [Suc m..<Suc (run_len p (map_option Suc hi) s)])"
  proof (cases s)
    case Nil
    then show ?thesis by (cases hi) (simp_all add: run_len_def)
  next
    case (Cons c t)
    have "run_len p (map_option Suc hi) (c # t) = (if p c then Suc (run_len p hi t) else 0)"
      by (cases hi) (simp_all add: run_len_def)
    with Cons assms map_shift [of t m "Suc (run_len p hi t)" c] show ?thesis
      by (simp add: repeats_def split_beta del: upt_Suc)
  qed
qed

lemma repeats_plus: "repeats (RPlus (RChr p)) p 1 None"
  using repeats_step [OF repeats_star, of p] by (simp add: RPlus_def)

lemma repeats_rep: "repeats (RRep (RChr p) m k) p m (Some (m + k))"
proof (induction m)
  case 0
  then show ?case using repeats_upto [of p k] by simp
next
  case (Suc m)
  then show ?case using repeats_step [OF Suc] by simp
qed

lemmas repeats_intros = repeats_star repeats_upto repeats_plus repeats_rep

lemma concat_rev_upt_single:
  assumes "\<And>j. j < Suc M \<Longrightarrow> j \<noteq> L \<Longrightarrow> F j = []"
  shows "concat (map F (rev [m..<Suc M])) = (if m \<le> L \<and> L \<le> M then F L else [])"
proof (cases "m \<le> M")
  case True
  have "concat (map F (rev [m..<Suc n])) = (if m \<le> L \<and> L \<le> n then F L else [])"
    if "m \<le> n" "n \<le> M" for n
    using that
  proof (induction n rule: dec_induct)
    case base
    then show ?case using assms [of m] by auto
  next
    case (step n)
    then show ?case using assms [of "Suc n"] by (auto simp: le_Suc_eq)
  qed
  with True show ?thesis by simp
next
  case False
  then show ?thesis by auto
qed

lemma drop_run_less:
  "j < length (takeWhile p s) \<Longrightarrow> drop j s = s ! j # drop (Suc j) s \<and> p (s ! j)"
  by (metis Cons_nth_drop_Suc length_takeWhile_le less_le_trans nth_mem set_takeWhileD takeWhile_nth)

lemma run_len_le: "run_len p hi s \<le> length (takeWhile p s)"
  by (auto simp: run_len_def split: option.splits)

lemma fits_run_len:
  "m \<le> length (takeWhile p s) \<and> length (takeWhile p s) \<le> run_len p hi s
     \<longleftrightarrow> fits (length (takeWhile p s)) m hi"
  by (auto simp: run_len_def split: option.splits)

text \<open>A captured class run followed by something that cannot start inside the class.\<close>

lemma rmatch_run_then:
  assumes "repeats r p m hi"
    and "\<And>c u. p c \<Longrightarrow> rmatch b (c # u) = []"
  shows "rmatch (RSeq (RGrp n r) b) s =
     (if fits (length (takeWhile p s)) m hi
      then map (\<lambda>(ds, u). ((n, takeWhile p s) # ds, u)) (rmatch b (dropWhile p s)) else [])"
proof -
  define L where "L = length (takeWhile p s)"
  define F where "F j = map (\<lambda>(ds, u). ((n, take j s) # ds, u)) (rmatch b (drop j s))" for j
  have len: "run_len p hi s \<le> length s"
    using run_len_le [of p hi s] length_takeWhile_le [of p s] by linarith
  have "rmatch (RSeq (RGrp n r) b) s = concat (map F (rev [m..<Suc (run_len p hi s)]))"
    using assms(1) len unfolding F_def repeats_def
    by (simp add: comp_def split_beta del: upt_Suc)
      (intro arg_cong [of _ _ concat] map_cong, auto simp: min_def)
  also have "\<dots> = (if m \<le> L \<and> L \<le> run_len p hi s then F L else [])"
  proof (rule concat_rev_upt_single)
    fix j assume "j < Suc (run_len p hi s)" and "j \<noteq> L"
    then have "j < L" using run_len_le [of p hi s] by (simp add: L_def)
    then show "F j = []"
      using drop_run_less [of j p s] assms(2) by (simp add: F_def L_def)
  qed
  finally show ?thesis
    by (simp add: L_def fits_run_len F_def takeWhile_eq_take [symmetric] dropWhile_eq_drop [symmetric])
qed

lemma rmatch_run_char:
  assumes "repeats r p m hi" and "\<And>c. p c \<Longrightarrow> \<not> q c"
  shows "rmatch (RSeq (RGrp n r) (RSeq (RChr q) b)) s =
     (case dropWhile p s of [] \<Rightarrow> []
      | c # t \<Rightarrow> if q c \<and> fits (length (takeWhile p s)) m hi
                 then map (\<lambda>(ds, u). ((n, takeWhile p s) # ds, u)) (rmatch b t) else [])"
proof -
  have "rmatch (RSeq (RGrp n r) (RSeq (RChr q) b)) s =
     (if fits (length (takeWhile p s)) m hi
      then map (\<lambda>(ds, u). ((n, takeWhile p s) # ds, u)) (rmatch (RSeq (RChr q) b) (dropWhile p s)) else [])"
    by (rule rmatch_run_then [OF assms(1)]) (simp add: assms(2))
  also have "rmatch (RSeq (RChr q) b) (dropWhile p s) =
      (case dropWhile p s of [] \<Rightarrow> [] | c # t \<Rightarrow> if q c then rmatch b t else [])"
    by (simp split: list.split del: dropWhile_eq_Nil_conv)
  finally show ?thesis
    by (simp split: list.split del: rmatch.simps dropWhile_eq_Nil_conv)
qed

lemma rmatch_run_end:
  assumes "repeats r p m hi"
  shows "rmatch (RSeq (RGrp n r) REnd) s =
     (if dropWhile p s = [] \<and> fits (length s) m hi then [([(n, s)], [])] else [])"
proof -
  have "rmatch (RSeq (RGrp n r) REnd) s =
     (if fits (length (takeWhile p s)) m hi
      then map (\<lambda>(ds, u). ((n, takeWhile p s) # ds, u)) (rmatch REnd (dropWhile p s)) else [])"
    by (rule rmatch_run_then [OF assms]) simp
  moreover have "takeWhile p s = s" if "dropWhile p s = []"
    using that takeWhile_dropWhile_id [of p s] by simp
  ultimately show ?thesis by (cases "dropWhile p s = []") (simp_all del: rmatch.simps(4) dropWhile_eq_Nil_conv)
qed

lemma rmatch_plain_end:
  assumes "repeats r p m hi"
  shows "test (RSeq r REnd) s \<longleftrightarrow> (\<forall>c \<in> set s. p c) \<and> fits (length s) m hi"
proof -
  have "(\<exists>x. x \<in> set (rmatch (RSeq r REnd) s)) = (\<exists>x. x \<in> set (rmatch (RSeq (RGrp 1 r) REnd) s))"
    by (auto simp: split_beta split: if_splits)
  then have "test (RSeq r REnd) s = test (RSeq (RGrp 1 r) REnd) s"
    by (simp only: test_def) (metis list.set_intros(1) neq_Nil_conv empty_iff list.set(1))
  also have "\<dots> = (dropWhile p s = [] \<and> fits (length s) m hi)"
    unfolding test_def rmatch_run_end [OF assms] by simp
  finally show ?thesis by (simp add: dropWhile_eq_Nil_conv)
qed

end
