(* ===== verification/Uci.thy ===== *)
theory Uci
  imports Regex
begin

text \<open>
  The configuration cache of \<open>uci.js\<close>: base values loaded from the device, pending
  section creations, option changes, deletions and reorderings, and the operations on them.

  The state record \<open>uci\<close> is the class's \<open>this.state\<close> with
  \<open>this.loaded\<close>; a section object is the record \<open>uci_section\<close>, whose first five
  fields are the dotted meta properties and whose last field holds the options in property
  order.  \<open>null\<close> and \<open>undefined\<close> are both \<^const>\<open>None\<close>.  The remote calls
  are arguments: \<open>fetch\<close> is \<open>callLoad\<close> (\<^const>\<open>None\<close>: the promise
  rejects) and the draws of \<open>Math.random\<close> are the sequence \<open>rnd\<close> of the state.
\<close>

section \<open>State\<close>

text \<open>The values of a section object, after the type definition of \<open>SectionObject\<close>.\<close>

datatype uval = UStr string | UList "string list" | UBool bool | UNum int

record uci_section =
  s_type :: string
  s_name :: string
  s_create :: "string option"
  s_anonymous :: bool
  s_index :: int
  s_opts :: "uval jsobj"

text \<open>\<open>deletes[conf][sid]\<close> is \<open>true\<close> or an object of option names.\<close>

datatype dels = DelAll | DelOpts "bool jsobj"

record uci =
  newidx :: int
  st_values :: "uci_section jsobj jsobj"
  creates :: "uci_section jsobj jsobj"
  changes :: "uval jsobj jsobj jsobj"
  deletes :: "dels jsobj jsobj"
  reorder :: "bool jsobj"
  loaded :: "uci_section jsobj option jsobj"
  rnd :: "nat \<Rightarrow> nat"
  rpos :: nat

definition init_uci :: "(nat \<Rightarrow> nat) \<Rightarrow> uci" where
  "init_uci r = \<lparr>newidx = 0, st_values = [], creates = [], changes = [], deletes = [], reorder = [],
     loaded = [], rnd = r, rpos = 0\<rparr>"

definition isEmpty :: "'v jsobj \<Rightarrow> string \<Rightarrow> bool" where
  "isEmpty m ignore = list_all (\<lambda>k. k = ignore) (okeys m)"

text \<open>Reading one property of a section object.\<close>

definition sec_prop :: "uci_section \<Rightarrow> string \<Rightarrow> uval option" where
  "sec_prop s k =
     (if k = ''.type'' then Some (UStr (s_type s))
      else if k = ''.name'' then Some (UStr (s_name s))
      else if k = ''.create'' then map_option UStr (s_create s)
      else if k = ''.anonymous'' then Some (UBool (s_anonymous s))
      else if k = ''.index'' then Some (UNum (s_index s))
      else oget (s_opts s) k)"

section \<open>Section identifiers\<close>

definition pad_left :: "nat \<Rightarrow> char \<Rightarrow> string \<Rightarrow> string" where
  "pad_left n c s = replicate (n - length s) c @ s"

text \<open>\<open>"new%06x".format(Math.random() * 0xFFFFFF)\<close> for the draw \<open>n\<close>.\<close>

definition sid_of :: "nat \<Rightarrow> string" where
  "sid_of n = ''new'' @ pad_left 6 CHR ''0'' (hex_string n)"

definition taken :: "uci \<Rightarrow> string \<Rightarrow> string \<Rightarrow> bool" where
  "taken st conf sid \<longleftrightarrow> oget2 (creates st) conf sid \<noteq> None \<or> oget2 (st_values st) conf sid \<noteq> None"

partial_function (option) createSID_loop :: "uci \<Rightarrow> string \<Rightarrow> nat \<Rightarrow> (string \<times> nat) option" where
  "createSID_loop st conf i =
     (if taken st conf (sid_of (rnd st i)) then createSID_loop st conf (Suc i)
      else Some (sid_of (rnd st i), Suc i))"

declare createSID_loop.simps [code]

definition createSID :: "string \<Rightarrow> uci \<Rightarrow> (string \<times> uci) jsret" where
  "createSID conf st =
     (case createSID_loop st conf (rpos st) of
        None \<Rightarrow> Hang
      | Some (sid, i) \<Rightarrow> Ret (sid, st\<lparr>rpos := i\<rparr>))"

section \<open>Enumerating sections\<close>

definition type_matches :: "string option \<Rightarrow> uci_section \<Rightarrow> bool" where
  "type_matches ty s = (case ty of None \<Rightarrow> True | Some t \<Rightarrow> t = [] \<or> s_type s = t)"

definition merge_changes :: "uval jsobj jsobj option \<Rightarrow> string \<Rightarrow> uci_section \<Rightarrow> uci_section" where
  "merge_changes c sid s =
     (case Option.bind c (\<lambda>m. oget m sid) of
        None \<Rightarrow> s
      | Some ch \<Rightarrow> s\<lparr>s_opts := oassign (s_opts s) ch\<rparr>)"

fun reindex :: "int \<Rightarrow> uci_section list \<Rightarrow> uci_section list" where
  "reindex i [] = []"
| "reindex i (s # ss) = s\<lparr>s_index := i\<rparr> # reindex (i + 1) ss"

text \<open>The unsorted array \<open>sa\<close>.\<close>

definition sections_raw :: "string \<Rightarrow> string option \<Rightarrow> uci \<Rightarrow> uci_section jsobj \<Rightarrow> uci_section list" where
  "sections_raw conf ty st v =
     map (\<lambda>(sid, s). merge_changes (oget (changes st) conf) sid s)
       (filter (\<lambda>(sid, s). oget2 (deletes st) conf sid \<noteq> Some DelAll \<and> type_matches ty s) v)
     @ (case oget (creates st) conf of
          None \<Rightarrow> []
        | Some n \<Rightarrow> filter (type_matches ty) (map snd n))"

definition uci_sections :: "string \<Rightarrow> string option \<Rightarrow> uci \<Rightarrow> uci_section list" where
  "uci_sections conf ty st =
     (case oget (st_values st) conf of
        None \<Rightarrow> []
      | Some v \<Rightarrow> reindex 0 (sort_key s_index (sections_raw conf ty st v)))"

text \<open>\<open>/^@([a-zA-Z0-9_-]+)\[(-?[0-9]+)\]$/\<close>\<close>

definition sid_pattern :: rexp where
  "sid_pattern = RCat [RLit CHR ''@'',
     RGrp 1 (RPlus (RChr (\<lambda>c. is_word c \<or> c = CHR ''-''))), RLit CHR ''['',
     RGrp 2 (RCat [ROpt (RLit CHR ''-''), RPlus (RChr is_digit)]), RLit CHR '']'', REnd]"

definition int_of_string :: "string \<Rightarrow> int" where
  "int_of_string s =
     (case s of
        [] \<Rightarrow> 0
      | c # t \<Rightarrow> if c = CHR ''-'' then - int (nat_of_radix 10 t) else int (nat_of_radix 10 s))"

definition nth_section :: "uci_section list \<Rightarrow> int \<Rightarrow> uci_section option" where
  "nth_section ss p =
     (let i = (if 0 \<le> p then p else int (length ss) + p)
      in if 0 \<le> i \<and> i < int (length ss) then Some (ss ! nat i) else None)"

definition resolveSID :: "string \<Rightarrow> string option \<Rightarrow> uci \<Rightarrow> string option" where
  "resolveSID conf sid st =
     (case sid of
        None \<Rightarrow> None
      | Some s \<Rightarrow>
          (case exec sid_pattern s of
             None \<Rightarrow> Some s
           | Some m \<Rightarrow>
               map_option s_name
                 (nth_section (uci_sections conf (cap m 1) st) (int_of_string (the (cap m 2))))))"

section \<open>Reading\<close>

definition uci_get :: "string \<Rightarrow> string option \<Rightarrow> string \<Rightarrow> uci \<Rightarrow> uval option" where
  "uci_get conf sid0 opt st =
     (case resolveSID conf sid0 st of
        None \<Rightarrow> None
      | Some sid \<Rightarrow>
          (case oget2 (creates st) conf sid of
             Some s \<Rightarrow> sec_prop s opt
           | None \<Rightarrow>
               if (case oget2 (deletes st) conf sid of
                     None \<Rightarrow> False
                   | Some DelAll \<Rightarrow> True
                   | Some (DelOpts d) \<Rightarrow> oget d opt = Some True) then None
               else (case Option.bind (oget2 (changes st) conf sid) (\<lambda>c. oget c opt) of
                       Some v \<Rightarrow> Some v
                     | None \<Rightarrow> Option.bind (oget2 (st_values st) conf sid) (\<lambda>s. sec_prop s opt))))"

text \<open>
  Reading a whole section merges the pending changes and deletions into the cached base
  section itself and returns that object.
\<close>

definition merged_section :: "string \<Rightarrow> string \<Rightarrow> uci \<Rightarrow> uci_section \<Rightarrow> uci_section" where
  "merged_section conf sid st s =
     (let o1 = (case oget2 (changes st) conf sid of None \<Rightarrow> s_opts s | Some c \<Rightarrow> oassign (s_opts s) c);
          o2 = (case oget2 (deletes st) conf sid of
                  Some (DelOpts d) \<Rightarrow> fold odel (okeys d) o1
                | _ \<Rightarrow> o1)
      in s\<lparr>s_opts := o2\<rparr>)"

definition get_section :: "string \<Rightarrow> string option \<Rightarrow> uci \<Rightarrow> uci_section option \<times> uci" where
  "get_section conf sid0 st =
     (case resolveSID conf sid0 st of
        None \<Rightarrow> (None, st)
      | Some sid \<Rightarrow>
          (case oget2 (creates st) conf sid of
             Some s \<Rightarrow> (Some s, st)
           | None \<Rightarrow>
               (case oget (st_values st) conf of
                  None \<Rightarrow> (None, st)
                | Some v \<Rightarrow>
                    if oget2 (deletes st) conf sid = Some DelAll then (None, st)
                    else (case oget v sid of
                            None \<Rightarrow> (None, st)
                          | Some s \<Rightarrow>
                              let s' = merged_section conf sid st s
                              in (Some s', st\<lparr>st_values := oset conf (oset sid s' v) (st_values st)\<rparr>)))))"

section \<open>Writing\<close>

definition uci_add :: "string \<Rightarrow> string \<Rightarrow> string option \<Rightarrow> uci \<Rightarrow> (string \<times> uci) jsret" where
  "uci_add conf ty name st =
     jbind (case name of
              Some n \<Rightarrow> if n \<noteq> [] then Ret (n, st) else createSID conf st
            | None \<Rightarrow> createSID conf st)
       (\<lambda>(sid, st1). Ret (sid, st1\<lparr>
          creates := oset2 conf sid
            \<lparr>s_type = ty, s_name = sid, s_create = name,
             s_anonymous = (name = None \<or> name = Some []),
             s_index = 1000 + newidx st1, s_opts = []\<rparr> (creates st1),
          newidx := newidx st1 + 1\<rparr>))"

definition uci_remove :: "string \<Rightarrow> string \<Rightarrow> uci \<Rightarrow> uci" where
  "uci_remove conf sid st =
     (if oget2 (creates st) conf sid \<noteq> None then
        st\<lparr>creates := odel2 conf sid (creates st)\<rparr>
      else if oget2 (st_values st) conf sid \<noteq> None then
        st\<lparr>changes := odel2 conf sid (changes st),
           deletes := oset2 conf sid DelAll (deletes st)\<rparr>
      else st)"

definition set_created :: "string \<Rightarrow> string \<Rightarrow> string \<Rightarrow> uval option \<Rightarrow> uci_section \<Rightarrow> uci \<Rightarrow> uci" where
  "set_created conf sid opt val s st =
     st\<lparr>creates := oset2 conf sid
         (s\<lparr>s_opts := (case val of Some v \<Rightarrow> oset opt v (s_opts s) | None \<Rightarrow> odel opt (s_opts s))\<rparr>)
         (creates st)\<rparr>"

definition undelete :: "string \<Rightarrow> string \<Rightarrow> string \<Rightarrow> dels jsobj jsobj \<Rightarrow> dels jsobj jsobj" where
  "undelete conf sid opt d =
     (case oget2 d conf sid of
        Some (DelOpts m) \<Rightarrow>
          if isEmpty m opt then odel2 conf sid d else oset2 conf sid (DelOpts (odel opt m)) d
      | _ \<Rightarrow> d)"

definition set_changed :: "string \<Rightarrow> string \<Rightarrow> string \<Rightarrow> uval \<Rightarrow> uci \<Rightarrow> uci" where
  "set_changed conf sid opt v st =
     (if oget2 (deletes st) conf sid = Some DelAll then st
      else if oget2 (st_values st) conf sid = None then st
      else st\<lparr>deletes := undelete conf sid opt (deletes st),
              changes := oset2 conf sid
                (oset opt v (case oget2 (changes st) conf sid of None \<Rightarrow> [] | Some m \<Rightarrow> m))
                (changes st)\<rparr>)"

definition revert_change :: "string \<Rightarrow> string \<Rightarrow> string \<Rightarrow> uval jsobj jsobj jsobj \<Rightarrow> uval jsobj jsobj jsobj" where
  "revert_change conf sid opt c =
     (case oget2 c conf sid of
        None \<Rightarrow> c
      | Some m \<Rightarrow>
          if isEmpty m opt then odel2 conf sid c else oset2 conf sid (odel opt m) c)"

definition mark_deleted :: "string \<Rightarrow> string \<Rightarrow> string \<Rightarrow> dels jsobj jsobj \<Rightarrow> dels jsobj jsobj" where
  "mark_deleted conf sid opt d =
     (case oget2 d conf sid of
        Some DelAll \<Rightarrow> d
      | Some (DelOpts m) \<Rightarrow> oset2 conf sid (DelOpts (oset opt True m)) d
      | None \<Rightarrow> oset2 conf sid (DelOpts (oset opt True [])) d)"

definition set_deleted :: "string \<Rightarrow> string \<Rightarrow> string \<Rightarrow> uci \<Rightarrow> uci" where
  "set_deleted conf sid opt st =
     (let st1 = st\<lparr>changes := revert_change conf sid opt (changes st)\<rparr>
      in (case oget2 (st_values st) conf sid of
            Some s \<Rightarrow>
              if oget (s_opts s) opt \<noteq> None
              then st1\<lparr>deletes := mark_deleted conf sid opt (deletes st)\<rparr> else st1
          | None \<Rightarrow> st1))"

definition uci_set :: "string \<Rightarrow> string option \<Rightarrow> string option \<Rightarrow> uval option \<Rightarrow> uci \<Rightarrow> uci" where
  "uci_set conf sid0 opt0 val st =
     (case (resolveSID conf sid0 st, opt0) of
        (Some sid, Some opt) \<Rightarrow>
          if take 1 opt = ''.'' then st
          else (case oget2 (creates st) conf sid of
                  Some s \<Rightarrow> set_created conf sid opt val s st
                | None \<Rightarrow>
                    (case val of
                       Some v \<Rightarrow>
                         if v \<noteq> UStr [] then set_changed conf sid opt v st
                         else set_deleted conf sid opt st
                     | None \<Rightarrow> set_deleted conf sid opt st))
      | _ \<Rightarrow> st)"

definition uci_unset :: "string \<Rightarrow> string option \<Rightarrow> string option \<Rightarrow> uci \<Rightarrow> uci" where
  "uci_unset conf sid opt st = uci_set conf sid opt None st"

definition first_sid :: "string \<Rightarrow> string option \<Rightarrow> uci \<Rightarrow> string option" where
  "first_sid conf ty st = (case uci_sections conf ty st of [] \<Rightarrow> None | s # _ \<Rightarrow> Some (s_name s))"

definition uci_get_first :: "string \<Rightarrow> string option \<Rightarrow> string \<Rightarrow> uci \<Rightarrow> uval option" where
  "uci_get_first conf ty opt st = uci_get conf (first_sid conf ty st) opt st"

definition uci_set_first :: "string \<Rightarrow> string option \<Rightarrow> string option \<Rightarrow> uval option \<Rightarrow> uci \<Rightarrow> uci" where
  "uci_set_first conf ty opt val st = uci_set conf (first_sid conf ty st) opt val st"

definition uci_unset_first :: "string \<Rightarrow> string option \<Rightarrow> string option \<Rightarrow> uci \<Rightarrow> uci" where
  "uci_unset_first conf ty opt st = uci_set_first conf ty opt None st"

section \<open>Moving sections\<close>

fun take_named :: "string \<Rightarrow> uci_section list \<Rightarrow> (uci_section \<times> uci_section list) option" where
  "take_named sid [] = None"
| "take_named sid (s # ss) =
     (if s_name s = sid then Some (s, ss)
      else map_option (\<lambda>(x, ys). (x, s # ys)) (take_named sid ss))"

text \<open>\<open>sa.splice(i + !!after, 0, s1)\<close> at the first section named \<open>sid2\<close>.\<close>

fun insert_named :: "string \<Rightarrow> bool \<Rightarrow> uci_section \<Rightarrow> uci_section list \<Rightarrow> uci_section list option" where
  "insert_named sid after x [] = None"
| "insert_named sid after x (s # ss) =
     (if s_name s = sid then Some (if after then s # x # ss else x # s # ss)
      else map_option ((#) s) (insert_named sid after x ss))"

text \<open>\<open>this.get(conf, name)['.index'] = i\<close>: the object that \<open>get\<close> returns is the
  cached one, so the assignment writes to the pending creation or to the base section.\<close>

definition set_index :: "string \<Rightarrow> string \<times> int \<Rightarrow> uci \<Rightarrow> uci jsret" where
  "set_index conf ni st =
     (case get_section conf (Some (fst ni)) st of
        (None, _) \<Rightarrow> Throw ''TypeError''
      | (Some s, st1) \<Rightarrow>
          (case resolveSID conf (Some (fst ni)) st of
             None \<Rightarrow> Throw ''TypeError''
           | Some sid \<Rightarrow>
               Ret (if oget2 (creates st1) conf sid \<noteq> None
                    then st1\<lparr>creates := oset2 conf sid (s\<lparr>s_index := snd ni\<rparr>) (creates st1)\<rparr>
                    else st1\<lparr>st_values := oset2 conf sid (s\<lparr>s_index := snd ni\<rparr>) (st_values st1)\<rparr>)))"

definition set_indexes :: "string \<Rightarrow> uci_section list \<Rightarrow> uci \<Rightarrow> uci jsret" where
  "set_indexes conf sa st =
     jfold (set_index conf) (zip (map s_name sa) (map int [0..<length sa])) st"

definition move_order ::
  "string option \<Rightarrow> string option \<Rightarrow> bool \<Rightarrow> uci_section list \<Rightarrow> uci_section list option" where
  "move_order sid1 sid2 after sa =
     (case Option.bind sid1 (\<lambda>s. take_named s sa) of
        None \<Rightarrow> None
      | Some (s1, rest) \<Rightarrow>
          (case sid2 of
             None \<Rightarrow> Some (rest @ [s1])
           | Some t \<Rightarrow> insert_named t after s1 rest))"

definition uci_move ::
  "string \<Rightarrow> string option \<Rightarrow> string option \<Rightarrow> bool \<Rightarrow> uci \<Rightarrow> (bool \<times> uci) jsret" where
  "uci_move conf sid1 sid2 after st =
     (case move_order (resolveSID conf sid1 st) (resolveSID conf sid2 st) after
             (uci_sections conf None st) of
        None \<Rightarrow> Ret (False, st)
      | Some sa \<Rightarrow>
          jbind (set_indexes conf sa st)
            (\<lambda>st1. Ret (True, st1\<lparr>reorder := oset conf True (reorder st1)\<rparr>)))"

section \<open>Loading and unloading\<close>

definition loadPackage ::
  "(string \<Rightarrow> uci_section jsobj option) \<Rightarrow> string \<Rightarrow> uci \<Rightarrow> uci_section jsobj option \<times> uci" where
  "loadPackage fetch pkg st =
     (case oget (loaded st) pkg of
        None \<Rightarrow> (fetch pkg, st\<lparr>loaded := oset pkg (fetch pkg) (loaded st)\<rparr>)
      | Some r \<Rightarrow> (r, st))"

text \<open>The loop of \<open>load\<close>: which packages are requested, and what each request yields.\<close>

fun load_requests ::
  "(string \<Rightarrow> uci_section jsobj option) \<Rightarrow> string list \<Rightarrow> uci
     \<Rightarrow> (string \<times> uci_section jsobj option) list \<times> uci" where
  "load_requests fetch [] st = ([], st)"
| "load_requests fetch (p # ps) st =
     (if oget (st_values st) p \<noteq> None then load_requests fetch ps st
      else (let (r, st1) = loadPackage fetch p st; (rs, st2) = load_requests fetch ps st1
            in ((p, r) # rs, st2)))"

definition store_package :: "string \<times> uci_section jsobj option \<Rightarrow> uci \<Rightarrow> uci" where
  "store_package pr st =
     (case snd pr of
        None \<Rightarrow> st
      | Some v \<Rightarrow> st\<lparr>st_values := oset (fst pr) v (st_values st)\<rparr>)"

text \<open>\<open>Promise.all\<close> rejects when one request does; then no response is stored.\<close>

definition uci_load ::
  "(string \<Rightarrow> uci_section jsobj option) \<Rightarrow> string list \<Rightarrow> uci \<Rightarrow> string list jsret \<times> uci" where
  "uci_load fetch packages st =
     (let (rs, st1) = load_requests fetch packages st
      in if \<exists>r \<in> set rs. snd r = None then (Throw ''RPCError'', st1)
         else (Ret (map fst rs), fold store_package rs st1))"

definition unload_one :: "string \<Rightarrow> uci \<Rightarrow> uci" where
  "unload_one p st = st\<lparr>st_values := odel p (st_values st), creates := odel p (creates st),
     changes := odel p (changes st), deletes := odel p (deletes st), loaded := odel p (loaded st)\<rparr>"

definition uci_unload :: "string list \<Rightarrow> uci \<Rightarrow> uci" where
  "uci_unload packages st = fold unload_one packages st"

section \<open>Saving\<close>

datatype task =
    CallDelete string string "string list option"
  | CallAdd string string "string option" "uval jsobj"
  | CallSet string string "uval jsobj"
  | CallOrder string "string list"

definition delete_tasks :: "uci \<Rightarrow> task list" where
  "delete_tasks st = concat (map (\<lambda>(conf, m). map (\<lambda>(sid, d).
     CallDelete conf sid (case d of DelAll \<Rightarrow> None | DelOpts ks \<Rightarrow> Some (okeys ks))) m) (deletes st))"

text \<open>The loop over the properties of a created section keeps \<open>.type\<close> and
  \<open>.create\<close> aside and sends the properties without a leading dot.\<close>

definition add_tasks :: "uci \<Rightarrow> task list" where
  "add_tasks st = concat (map (\<lambda>(conf, m). map (\<lambda>(sid, s).
     CallAdd conf (s_type s) (s_create s)
       (filter (\<lambda>(k, _). take 1 k \<noteq> ''.'') (s_opts s))) m) (creates st))"

definition set_tasks :: "uci \<Rightarrow> task list" where
  "set_tasks st = concat (map (\<lambda>(conf, m). map (\<lambda>(sid, c). CallSet conf sid c) m) (changes st))"

definition save_tasks :: "uci \<Rightarrow> task list" where
  "save_tasks st = delete_tasks st @ add_tasks st @ set_tasks st"

text \<open>The array \<open>snew\<close>: where the created sections live.\<close>

definition snew :: "uci \<Rightarrow> (string \<times> string) list" where
  "snew st = concat (map (\<lambda>(conf, m). map (\<lambda>(sid, _). (conf, sid)) m) (creates st))"

definition save_pkgs :: "uci \<Rightarrow> string list" where
  "save_pkgs st = okeys (fold (\<lambda>k. oset k True)
     (okeys (deletes st) @ okeys (creates st) @ okeys (changes st) @ okeys (reorder st)) [])"

text \<open>\<open>for (i < snew.length) snew[i]['.name'] = responses[i]\<close>\<close>

definition assign_name :: "(string \<times> string) \<times> string \<Rightarrow> uci \<Rightarrow> uci" where
  "assign_name x st =
     (case oget2 (creates st) (fst (fst x)) (snd (fst x)) of
        None \<Rightarrow> st
      | Some s \<Rightarrow> st\<lparr>creates := oset2 (fst (fst x)) (snd (fst x)) (s\<lparr>s_name := snd x\<rparr>) (creates st)\<rparr>)"

definition assign_names :: "string list \<Rightarrow> uci \<Rightarrow> uci" where
  "assign_names responses st = fold assign_name (zip (snew st) responses) st"

definition order_task :: "uci \<Rightarrow> string \<Rightarrow> task list" where
  "order_task st c =
     (let ss = (case oget (creates st) c of None \<Rightarrow> [] | Some m \<Rightarrow> map snd m) @
               (case oget (st_values st) c of None \<Rightarrow> [] | Some m \<Rightarrow> map snd m)
      in if ss = [] then [] else [CallOrder c (map s_name (sort_key s_index ss))])"

definition reorderSections :: "uci \<Rightarrow> task list \<times> uci" where
  "reorderSections st =
     (concat (map (order_task st) (okeys (reorder st))), st\<lparr>reorder := []\<rparr>)"

text \<open>
  \<open>responses\<close> holds the replies to \<^const>\<open>save_tasks\<close> in order (a numeric ubus
  status in its decimal form), \<^const>\<open>None\<close> when one of the calls rejects; \<open>order_ok\<close>
  tells whether the \<open>order\<close> calls are all answered.  The result is the promise's outcome, the
  calls issued, and the state left behind.
\<close>

definition uci_save ::
  "(string \<Rightarrow> uci_section jsobj option) \<Rightarrow> string list option \<Rightarrow> bool \<Rightarrow> uci
     \<Rightarrow> string list jsret \<times> task list \<times> uci" where
  "uci_save fetch responses order_ok st =
     (case responses of
        None \<Rightarrow> (Throw ''RPCError'', save_tasks st, st)
      | Some rs \<Rightarrow>
          let st1 = assign_names rs st;
              (order, st2) = reorderSections st1
          in if order \<noteq> [] \<and> \<not> order_ok then (Throw ''RPCError'', save_tasks st @ order, st2)
             else let (res, st3) = uci_load fetch (save_pkgs st) (uci_unload (save_pkgs st) st2)
                  in (res, save_tasks st @ order, st3))"

section \<open>Applying\<close>

datatype confirm = ConfirmDone int | ConfirmRetry | ConfirmReject int

text \<open>\<open>date\<close> is the instant \<open>apply\<close> was called at: the \<open>Date\<close> object is made
  once and its \<open>getTime()\<close> is what each attempt compares with the deadline.\<close>

definition apply_timeout :: "int option \<Rightarrow> int" where
  "apply_timeout t = (case t of None \<Rightarrow> 10 | Some n \<Rightarrow> if n < 1 then 10 else n)"

definition try_confirm :: "int \<Rightarrow> int \<Rightarrow> int \<Rightarrow> confirm" where
  "try_confirm date timeout rv =
     (let try_deadline = date + 1000 * timeout
      in if rv \<noteq> 0 then (if date < try_deadline then ConfirmRetry else ConfirmReject rv)
         else ConfirmDone rv)"

text \<open>The attempts after a successful \<open>callApply\<close>, with \<open>rvs\<close> the replies of
  \<open>callConfirm\<close>: the outcome of the last attempt made within \<open>n\<close> attempts.\<close>

fun confirm_run :: "nat \<Rightarrow> int \<Rightarrow> int \<Rightarrow> (nat \<Rightarrow> int) \<Rightarrow> nat \<Rightarrow> confirm" where
  "confirm_run 0 date timeout rvs i = ConfirmRetry"
| "confirm_run (Suc n) date timeout rvs i =
     (case try_confirm date timeout (rvs i) of
        ConfirmRetry \<Rightarrow> confirm_run n date timeout rvs (Suc i)
      | r \<Rightarrow> r)"

definition uci_apply :: "nat \<Rightarrow> int \<Rightarrow> int option \<Rightarrow> int \<Rightarrow> (nat \<Rightarrow> int) \<Rightarrow> confirm" where
  "uci_apply n date timeout rv rvs =
     (if rv \<noteq> 0 then ConfirmReject rv else confirm_run n date (apply_timeout timeout) rvs 0)"

end
