(* ===== verification/UciLaws.thy ===== *)
theory UciLaws
  imports Uci
begin

text \<open>
  Laws of the configuration cache: the well-formedness invariant and that every operation keeps
  it, the effective view a reader sees and how each writer changes it (a functional refinement
  of a map update), the order of sections and the effect of \<open>move\<close>, and the behaviour of
  \<open>save\<close>, \<open>load\<close> and \<open>apply\<close>.
\<close>

named_theorems uci_defs \<open>unfolding of the cache operations\<close>

section \<open>Plain section identifiers\<close>

definition plain_sid :: "string \<Rightarrow> bool" where
  "plain_sid s \<longleftrightarrow> take 1 s \<noteq> ''@''"

definition plain_opt :: "string \<Rightarrow> bool" where
  "plain_opt s \<longleftrightarrow> take 1 s \<noteq> ''.''"

lemma exec_plain_sid: "plain_sid s \<Longrightarrow> exec sid_pattern s = None"
  by (cases s) (simp_all add: plain_sid_def exec_def sid_pattern_def RLit_def)

lemma resolveSID_plain [simp]: "plain_sid s \<Longrightarrow> resolveSID conf (Some s) st = Some s"
  by (simp add: resolveSID_def exec_plain_sid)

lemma resolveSID_None [simp]: "resolveSID conf None st = None"
  by (simp add: resolveSID_def)

lemma plain_sid_of: "plain_sid (sid_of n)"
  by (simp add: plain_sid_def sid_of_def)

lemma plain_opt_dot: "plain_opt k \<Longrightarrow> k \<noteq> CHR ''.'' # x"
  by (cases k) (simp_all add: plain_opt_def)

lemma sec_prop_plain: "plain_opt k \<Longrightarrow> sec_prop s k = oget (s_opts s) k"
  unfolding sec_prop_def by (simp add: plain_opt_dot)

section \<open>Well-formed states\<close>

definition sec_wf :: "string \<Rightarrow> uci_section \<Rightarrow> bool" where
  "sec_wf sid s \<longleftrightarrow> s_name s = sid \<and> owf (s_opts s) \<and> list_all plain_opt (okeys (s_opts s))"

definition store_wf :: "uci_section jsobj jsobj \<Rightarrow> bool" where
  "store_wf m \<longleftrightarrow> owf2 m \<and> (\<forall>conf sid s. oget2 m conf sid = Some s \<longrightarrow> plain_sid sid \<and> sec_wf sid s)"

definition changes_wf :: "uval jsobj jsobj jsobj \<Rightarrow> bool" where
  "changes_wf c \<longleftrightarrow> owf2 c \<and>
     (\<forall>conf sid m. oget2 c conf sid = Some m \<longrightarrow> owf m \<and> list_all plain_opt (okeys m))"

definition deletes_wf :: "dels jsobj jsobj \<Rightarrow> bool" where
  "deletes_wf d \<longleftrightarrow> owf2 d \<and>
     (\<forall>conf sid m. oget2 d conf sid = Some (DelOpts m) \<longrightarrow>
        owf m \<and> (\<forall>k. oget m k \<noteq> Some False))"

text \<open>
  Pending changes and deletions refer to base sections, no section is both changed and deleted,
  and no option is both changed and deleted.
\<close>

definition pend_ok :: "uci_section option \<Rightarrow> uval jsobj option \<Rightarrow> dels option \<Rightarrow> bool" where
  "pend_ok v c d \<longleftrightarrow>
     (c \<noteq> None \<longrightarrow> v \<noteq> None \<and> d \<noteq> Some DelAll) \<and> (d \<noteq> None \<longrightarrow> v \<noteq> None) \<and>
     (\<forall>c' d' k. c = Some c' \<longrightarrow> d = Some (DelOpts d') \<longrightarrow> oget c' k = None \<or> oget d' k = None)"

definition pending_wf :: "uci \<Rightarrow> bool" where
  "pending_wf st \<longleftrightarrow> (\<forall>conf sid.
     pend_ok (oget2 (st_values st) conf sid) (oget2 (changes st) conf sid) (oget2 (deletes st) conf sid))"

definition uci_wf :: "uci \<Rightarrow> bool" where
  "uci_wf st \<longleftrightarrow> store_wf (st_values st) \<and> store_wf (creates st) \<and> changes_wf (changes st) \<and>
     deletes_wf (deletes st) \<and> pending_wf st"

lemma uci_wf_init: "uci_wf (init_uci r)"
  by (simp add: uci_wf_def init_uci_def store_wf_def changes_wf_def deletes_wf_def pending_wf_def
      pend_ok_def)

lemma store_wf_oset2:
  "store_wf m \<Longrightarrow> plain_sid sid \<Longrightarrow> sec_wf sid s \<Longrightarrow> store_wf (oset2 conf sid s m)"
  by (auto simp: store_wf_def)

lemma store_wf_odel2: "store_wf m \<Longrightarrow> store_wf (odel2 conf sid m)"
  by (auto simp: store_wf_def split: if_splits)

lemma store_wf_odel: "store_wf m \<Longrightarrow> store_wf (odel conf m)"
  by (auto simp: store_wf_def split: if_splits)

lemma store_wfD:
  "store_wf m \<Longrightarrow> oget2 m conf sid = Some s \<Longrightarrow> s_name s = sid"
  "store_wf m \<Longrightarrow> oget2 m conf sid = Some s \<Longrightarrow> owf (s_opts s)"
  "store_wf m \<Longrightarrow> oget2 m conf sid = Some s \<Longrightarrow> list_all plain_opt (okeys (s_opts s))"
  "store_wf m \<Longrightarrow> oget2 m conf sid = Some s \<Longrightarrow> plain_sid sid"
  by (auto simp: store_wf_def sec_wf_def)

lemma list_all_okeys_oset:
  "list_all P (okeys m) \<Longrightarrow> P k \<Longrightarrow> list_all P (okeys (oset k v m))"
  by (simp add: list_all_iff okeys_oset)

lemma list_all_okeys_odel: "list_all P (okeys m) \<Longrightarrow> list_all P (okeys (odel k m))"
  by (simp add: list_all_iff okeys_odel)

lemma sec_wf_oset: "sec_wf sid s \<Longrightarrow> plain_opt k \<Longrightarrow> sec_wf sid (s\<lparr>s_opts := oset k v (s_opts s)\<rparr>)"
  by (simp add: sec_wf_def list_all_okeys_oset)

lemma sec_wf_odel: "sec_wf sid s \<Longrightarrow> sec_wf sid (s\<lparr>s_opts := odel k (s_opts s)\<rparr>)"
  by (simp add: sec_wf_def list_all_okeys_odel)

lemma isEmpty_iff: "isEmpty m k \<longleftrightarrow> (\<forall>x. x \<noteq> k \<longrightarrow> oget m x = None)"
  by (auto simp: isEmpty_def list_all_iff oget_None)

subsection \<open>The pieces of \<open>set\<close>\<close>

lemma oget2_undelete:
  "oget2 (undelete conf sid opt d) x y =
     (if x = conf \<and> y = sid then
        (case oget2 d conf sid of
           Some (DelOpts m) \<Rightarrow> if isEmpty m opt then None else Some (DelOpts (odel opt m))
         | r \<Rightarrow> r)
      else oget2 d x y)"
  by (auto simp: undelete_def split: option.splits dels.splits)

lemma oget2_revert_change:
  "oget2 (revert_change conf sid opt c) x y =
     (if x = conf \<and> y = sid then
        (case oget2 c conf sid of
           None \<Rightarrow> None
         | Some m \<Rightarrow> if isEmpty m opt then None else Some (odel opt m))
      else oget2 c x y)"
  by (auto simp: revert_change_def split: option.splits)

lemma oget2_mark_deleted:
  "oget2 (mark_deleted conf sid opt d) x y =
     (if x = conf \<and> y = sid then
        (case oget2 d conf sid of
           Some DelAll \<Rightarrow> Some DelAll
         | Some (DelOpts m) \<Rightarrow> Some (DelOpts (oset opt True m))
         | None \<Rightarrow> Some (DelOpts (oset opt True [])))
      else oget2 d x y)"
  by (auto simp: mark_deleted_def split: option.splits dels.splits)

lemma changes_wf_revert: "changes_wf c \<Longrightarrow> changes_wf (revert_change conf sid opt c)"
  by (auto simp: changes_wf_def revert_change_def list_all_okeys_odel split: option.splits if_splits)

lemma changes_wf_oset2:
  "changes_wf c \<Longrightarrow> owf m \<Longrightarrow> list_all plain_opt (okeys m) \<Longrightarrow> changes_wf (oset2 conf sid m c)"
  by (auto simp: changes_wf_def)

lemma changes_wf_odel2: "changes_wf c \<Longrightarrow> changes_wf (odel2 conf sid c)"
  by (auto simp: changes_wf_def split: if_splits)

lemma deletes_wf_oset2:
  "deletes_wf d \<Longrightarrow> (\<And>m. x = DelOpts m \<Longrightarrow> owf m \<and> (\<forall>k. oget m k \<noteq> Some False)) \<Longrightarrow>
     deletes_wf (oset2 conf sid x d)"
  by (auto simp: deletes_wf_def)

lemma deletes_wf_odel2: "deletes_wf d \<Longrightarrow> deletes_wf (odel2 conf sid d)"
  by (auto simp: deletes_wf_def split: if_splits)

lemma deletes_wfD:
  "deletes_wf d \<Longrightarrow> oget2 d conf sid = Some (DelOpts m) \<Longrightarrow> owf m"
  "deletes_wf d \<Longrightarrow> oget2 d conf sid = Some (DelOpts m) \<Longrightarrow> oget m k \<noteq> Some False"
  by (auto simp: deletes_wf_def)

lemma deletes_wf_undelete: "deletes_wf d \<Longrightarrow> deletes_wf (undelete conf sid opt d)"
  by (auto simp: undelete_def intro!: deletes_wf_odel2 deletes_wf_oset2 dest: deletes_wfD
      split: option.splits dels.splits if_splits)

lemma deletes_wf_mark: "deletes_wf d \<Longrightarrow> deletes_wf (mark_deleted conf sid opt d)"
  by (auto simp: mark_deleted_def intro!: deletes_wf_oset2 dest: deletes_wfD
      split: option.splits dels.splits if_splits)


lemma uci_wfD:
  "uci_wf st \<Longrightarrow> store_wf (st_values st)"
  "uci_wf st \<Longrightarrow> store_wf (creates st)"
  "uci_wf st \<Longrightarrow> changes_wf (changes st)"
  "uci_wf st \<Longrightarrow> deletes_wf (deletes st)"
  "uci_wf st \<Longrightarrow> pending_wf st"
  by (simp_all add: uci_wf_def)

lemma changes_wfD:
  "changes_wf c \<Longrightarrow> oget2 c conf sid = Some m \<Longrightarrow> owf m"
  "changes_wf c \<Longrightarrow> oget2 c conf sid = Some m \<Longrightarrow> list_all plain_opt (okeys m)"
  by (auto simp: changes_wf_def)

lemma pending_wf_at:
  "pending_wf st \<Longrightarrow>
     pend_ok (oget2 (st_values st) conf sid) (oget2 (changes st) conf sid) (oget2 (deletes st) conf sid)"
  by (simp add: pending_wf_def)

lemma pending_wf_upd:
  assumes "pending_wf st"
    and "pend_ok (oget2 (st_values st') conf sid) (oget2 (changes st') conf sid) (oget2 (deletes st') conf sid)"
    and "\<And>x y. \<not> (x = conf \<and> y = sid) \<Longrightarrow> oget2 (st_values st') x y = oget2 (st_values st) x y \<and>
       oget2 (changes st') x y = oget2 (changes st) x y \<and> oget2 (deletes st') x y = oget2 (deletes st) x y"
  shows "pending_wf st'"
  unfolding pending_wf_def
proof (intro allI)
  fix x y
  show "pend_ok (oget2 (st_values st') x y) (oget2 (changes st') x y) (oget2 (deletes st') x y)"
    using assms pending_wf_at [OF assms(1), of x y] by (cases "x = conf \<and> y = sid") auto
qed

lemma pending_wfD:
  assumes "pending_wf st"
  shows "oget2 (changes st) conf sid = Some c \<Longrightarrow> \<exists>s. oget2 (st_values st) conf sid = Some s"
    and "oget2 (deletes st) conf sid = Some d \<Longrightarrow> \<exists>s. oget2 (st_values st) conf sid = Some s"
    and "oget2 (deletes st) conf sid = Some DelAll \<Longrightarrow> oget2 (changes st) conf sid = None"
    and "oget2 (changes st) conf sid = Some c \<Longrightarrow> oget2 (deletes st) conf sid = Some (DelOpts m) \<Longrightarrow>
      oget c k = None \<or> oget m k = None"
proof -
  note w = pending_wf_at [OF assms, of conf sid, unfolded pend_ok_def]
  show "oget2 (changes st) conf sid = Some c \<Longrightarrow> \<exists>s. oget2 (st_values st) conf sid = Some s"
    and "oget2 (deletes st) conf sid = Some d \<Longrightarrow> \<exists>s. oget2 (st_values st) conf sid = Some s"
    and "oget2 (deletes st) conf sid = Some DelAll \<Longrightarrow> oget2 (changes st) conf sid = None"
    using w by auto
  show "oget2 (changes st) conf sid = Some c \<Longrightarrow> oget2 (deletes st) conf sid = Some (DelOpts m) \<Longrightarrow>
      oget c k = None \<or> oget m k = None"
    using w [THEN conjunct2, THEN conjunct2, rule_format] .
qed

lemma set_created_wf:
  assumes "uci_wf st" and "oget2 (creates st) conf sid = Some s" and "plain_opt opt"
  shows "uci_wf (set_created conf sid opt val s st)"
proof -
  have "store_wf (creates st)" using assms(1) by (rule uci_wfD)
  then have "sec_wf sid s" and "plain_sid sid" using assms(2) by (auto simp: store_wf_def)
  with assms show ?thesis
    by (auto simp: set_created_def uci_wf_def pending_wf_def
        intro!: store_wf_oset2 sec_wf_oset sec_wf_odel split: option.split)
qed

lemma set_changed_wf:
  assumes wf: "uci_wf st" and "plain_opt opt"
  shows "uci_wf (set_changed conf sid opt v st)"
proof (cases "oget2 (deletes st) conf sid = Some DelAll \<or> oget2 (st_values st) conf sid = None")
  case True
  with wf show ?thesis by (auto simp: set_changed_def)
next
  case False
  define c where "c = (case oget2 (changes st) conf sid of None \<Rightarrow> [] | Some m \<Rightarrow> m)"
  let ?st = "st\<lparr>deletes := undelete conf sid opt (deletes st),
              changes := oset2 conf sid (oset opt v c) (changes st)\<rparr>"
  have eq: "set_changed conf sid opt v st = ?st"
    using False by (auto simp: set_changed_def c_def)
  have c: "owf c" "list_all plain_opt (okeys c)"
    using changes_wfD uci_wfD(3) [OF wf] by (auto simp: c_def okeys_def split: option.split)
  have p: "pending_wf st" using wf by (rule uci_wfD)
  have cd: "oget c k = None \<or> oget m k = None" if "oget2 (deletes st) conf sid = Some (DelOpts m)" for k m
    using that pending_wfD(4) [OF p] by (simp add: c_def split: option.split)
  have "pending_wf ?st"
  proof (rule pending_wf_upd [OF p, of _ conf sid])
    show "pend_ok (oget2 (st_values ?st) conf sid) (oget2 (changes ?st) conf sid)
        (oget2 (deletes ?st) conf sid)"
      using False by (simp add: pend_ok_def oget2_undelete cd split: option.splits dels.splits)
  qed (simp add: oget2_undelete if_not_P del: de_Morgan_conj)
  with wf c assms(2) show ?thesis
    unfolding eq uci_wf_def
    by (simp add: deletes_wf_undelete changes_wf_oset2 list_all_okeys_oset)
qed

lemma set_deleted_wf:
  assumes wf: "uci_wf st"
  shows "uci_wf (set_deleted conf sid opt st)"
proof -
  have p: "pending_wf st" using wf by (rule uci_wfD)
  define mark where "mark \<longleftrightarrow> (\<exists>s. oget2 (st_values st) conf sid = Some s \<and> oget (s_opts s) opt \<noteq> None)"
  let ?st = "st\<lparr>changes := revert_change conf sid opt (changes st),
       deletes := (if mark then mark_deleted conf sid opt (deletes st) else deletes st)\<rparr>"
  have eq: "set_deleted conf sid opt st = ?st"
    by (auto simp: set_deleted_def mark_def Let_def split: option.splits)
  have "pending_wf ?st"
    by (rule pending_wf_upd [OF p, of _ conf sid])
      (use pending_wf_at [OF p, of conf sid] in
        \<open>auto simp: pend_ok_def oget2_revert_change oget2_mark_deleted mark_def
           split: option.splits dels.splits if_splits\<close>)
  with wf show ?thesis
    unfolding eq uci_wf_def
    by (simp add: changes_wf_revert deletes_wf_mark)
qed

text \<open>Every write keeps the invariant.\<close>

lemma uci_set_wf: "uci_wf st \<Longrightarrow> uci_wf (uci_set conf sid opt val st)"
  unfolding uci_set_def
  by (auto simp: set_created_wf set_changed_wf set_deleted_wf plain_opt_def split: option.split)

lemma uci_remove_wf:
  assumes wf: "uci_wf st"
  shows "uci_wf (uci_remove conf sid st)"
proof -
  have p: "pending_wf st" using wf by (rule uci_wfD)
  consider "oget2 (creates st) conf sid \<noteq> None"
    | "oget2 (creates st) conf sid = None" "oget2 (st_values st) conf sid \<noteq> None"
    | "oget2 (creates st) conf sid = None" "oget2 (st_values st) conf sid = None" by blast
  then show ?thesis
  proof cases
    case 1
    with wf p show ?thesis
      by (simp add: uci_remove_def uci_wf_def store_wf_odel2 pending_wf_def)
  next
    case 2
    let ?st = "st\<lparr>changes := odel2 conf sid (changes st), deletes := oset2 conf sid DelAll (deletes st)\<rparr>"
    have "pending_wf ?st"
      by (rule pending_wf_upd [OF p, of _ conf sid]) (use 2 in \<open>auto simp: pend_ok_def\<close>)
    moreover have "deletes_wf (oset2 conf sid DelAll (deletes st))"
      by (rule deletes_wf_oset2) (use wf in \<open>auto simp: uci_wf_def\<close>)
    ultimately show ?thesis
      using 2 wf by (simp add: uci_remove_def uci_wf_def changes_wf_odel2)
  next
    case 3
    with wf show ?thesis by (simp add: uci_remove_def)
  qed
qed

section \<open>The effective view\<close>

text \<open>What \<open>get\<close> returns for an option, as a function of the four entries of the section:
  pending creation, deletions, changes and base value.\<close>

definition eff :: "uci_section option \<Rightarrow> dels option \<Rightarrow> uval jsobj option \<Rightarrow> uci_section option \<Rightarrow> string
  \<Rightarrow> uval option" where
  "eff n d c v opt =
     (case n of
        Some s \<Rightarrow> sec_prop s opt
      | None \<Rightarrow>
          if (case d of None \<Rightarrow> False | Some DelAll \<Rightarrow> True | Some (DelOpts m) \<Rightarrow> oget m opt = Some True)
          then None
          else (case Option.bind c (\<lambda>m. oget m opt) of
                  Some x \<Rightarrow> Some x
                | None \<Rightarrow> Option.bind v (\<lambda>s. sec_prop s opt)))"

lemma uci_get_eff:
  "plain_sid sid \<Longrightarrow> uci_get conf (Some sid) opt st =
     eff (oget2 (creates st) conf sid) (oget2 (deletes st) conf sid)
       (oget2 (changes st) conf sid) (oget2 (st_values st) conf sid) opt"
  by (simp add: uci_get_def eff_def)

definition writable :: "uci \<Rightarrow> string \<Rightarrow> string \<Rightarrow> bool" where
  "writable st conf sid \<longleftrightarrow> oget2 (creates st) conf sid \<noteq> None \<or>
     (oget2 (st_values st) conf sid \<noteq> None \<and> oget2 (deletes st) conf sid \<noteq> Some DelAll)"

text \<open>An empty string removes an option of a section that exists on the device; a section that is
  only pending keeps it.\<close>

definition stored :: "uci \<Rightarrow> string \<Rightarrow> string \<Rightarrow> uval option \<Rightarrow> uval option" where
  "stored st conf sid val =
     (if oget2 (creates st) conf sid = None \<and> val = Some (UStr []) then None else val)"

lemma uci_set_plain:
  "plain_sid sid \<Longrightarrow> plain_opt opt \<Longrightarrow> uci_set conf (Some sid) (Some opt) val st =
     (case oget2 (creates st) conf sid of
        Some s \<Rightarrow> set_created conf sid opt val s st
      | None \<Rightarrow> (case stored st conf sid val of
            Some v \<Rightarrow> set_changed conf sid opt v st
          | None \<Rightarrow> set_deleted conf sid opt st))"
  by (simp add: uci_set_def plain_opt_def stored_def split: option.split)

lemma eff_created: "plain_opt k \<Longrightarrow> eff (Some s) d c v k = oget (s_opts s) k"
  by (simp add: eff_def sec_prop_plain)

lemma get_set_created:
  assumes "oget2 (creates st) conf sid = Some s" "plain_sid sid" "plain_opt opt" "plain_sid sid'" "plain_opt opt'"
  shows "uci_get conf' (Some sid') opt' (set_created conf sid opt val s st) =
    (if conf' = conf \<and> sid' = sid \<and> opt' = opt then val else uci_get conf' (Some sid') opt' st)"
  using assms
  by (cases val; cases "conf' = conf \<and> sid' = sid") (auto simp: uci_get_eff set_created_def eff_created)

lemma eff_undelete:
  assumes "plain_opt k"
  shows "eff None (case d of Some (DelOpts m) \<Rightarrow> if isEmpty m opt then None else Some (DelOpts (odel opt m)) | r \<Rightarrow> r)
      (Some (oset opt x (case c of None \<Rightarrow> [] | Some m \<Rightarrow> m))) v k =
    (if d = Some DelAll then None else if k = opt then Some x else eff None d c v k)"
  using assms by (auto simp: eff_def isEmpty_iff split: option.splits dels.splits)

lemma get_set_changed:
  assumes "oget2 (creates st) conf sid = None" "writable st conf sid" "plain_sid sid" "plain_sid sid'" "plain_opt opt'"
  shows "uci_get conf' (Some sid') opt' (set_changed conf sid opt v st) =
    (if conf' = conf \<and> sid' = sid \<and> opt' = opt then Some v else uci_get conf' (Some sid') opt' st)"
proof (cases "conf' = conf \<and> sid' = sid")
  case True
  with assms eff_undelete [where k = opt' and d = "oget2 (deletes st) conf sid" and opt = opt and x = v
      and c = "oget2 (changes st) conf sid" and v = "oget2 (st_values st) conf sid"]
  show ?thesis by (auto simp: uci_get_eff set_changed_def oget2_undelete writable_def)
next
  case False
  with assms show ?thesis
    by (auto simp: uci_get_eff set_changed_def oget2_undelete if_not_P simp del: de_Morgan_conj)
qed

lemma eff_deleted:
  assumes "plain_opt k" and "\<forall>m. d = Some (DelOpts m) \<longrightarrow> oget m k \<noteq> Some False"
  shows "eff None
      (if mark then (case d of Some DelAll \<Rightarrow> Some DelAll | Some (DelOpts m) \<Rightarrow> Some (DelOpts (oset opt True m))
         | None \<Rightarrow> Some (DelOpts (oset opt True []))) else d)
      (case c of None \<Rightarrow> None | Some m \<Rightarrow> if isEmpty m opt then None else Some (odel opt m)) v k =
    (if k = opt \<and> (mark \<or> Option.bind v (\<lambda>s. sec_prop s opt) = None) then None
     else if k = opt then eff None d None v k
     else eff None d c v k)"
  using assms by (auto simp: eff_def isEmpty_iff split: option.splits dels.splits)

lemma get_set_deleted:
  assumes wf: "uci_wf st" and "oget2 (creates st) conf sid = None" "plain_sid sid" "plain_opt opt"
    "plain_sid sid'" "plain_opt opt'"
  shows "uci_get conf' (Some sid') opt' (set_deleted conf sid opt st) =
    (if conf' = conf \<and> sid' = sid \<and> opt' = opt then None else uci_get conf' (Some sid') opt' st)"
proof (cases "conf' = conf \<and> sid' = sid")
  case True
  have d: "\<forall>m. oget2 (deletes st) conf sid = Some (DelOpts m) \<longrightarrow> oget m opt' \<noteq> Some False"
    using deletes_wfD(2) [OF uci_wfD(4) [OF wf]] by blast
  let ?mark = "\<exists>s. oget2 (st_values st) conf sid = Some s \<and> oget (s_opts s) opt \<noteq> None"
  have "uci_get conf' (Some sid') opt' (set_deleted conf sid opt st) =
      eff None (if ?mark then (case oget2 (deletes st) conf sid of Some DelAll \<Rightarrow> Some DelAll
           | Some (DelOpts m) \<Rightarrow> Some (DelOpts (oset opt True m)) | None \<Rightarrow> Some (DelOpts (oset opt True [])))
         else oget2 (deletes st) conf sid)
      (case oget2 (changes st) conf sid of None \<Rightarrow> None
         | Some m \<Rightarrow> if isEmpty m opt then None else Some (odel opt m)) (oget2 (st_values st) conf sid) opt'"
    using True assms
    by (auto simp: uci_get_eff set_deleted_def Let_def oget2_revert_change oget2_mark_deleted
        split: option.splits)
  also have "\<dots> = (if opt' = opt then None else uci_get conf' (Some sid') opt' st)"
    unfolding eff_deleted [OF \<open>plain_opt opt'\<close> d] using True assms
    by (cases "oget2 (st_values st) conf sid") (auto simp: uci_get_eff sec_prop_plain)
  finally show ?thesis using True by simp
next
  case False
  with assms show ?thesis
    by (auto simp: uci_get_eff set_deleted_def Let_def oget2_revert_change oget2_mark_deleted
        if_not_P split: option.splits simp del: de_Morgan_conj)
qed

lemma get_after_set:
  assumes "uci_wf st" "writable st conf sid" "plain_sid sid" "plain_opt opt" "plain_sid sid'" "plain_opt opt'"
  shows "uci_get conf' (Some sid') opt' (uci_set conf (Some sid) (Some opt) val st) =
    (if conf' = conf \<and> sid' = sid \<and> opt' = opt then stored st conf sid val
     else uci_get conf' (Some sid') opt' st)"
proof (cases "oget2 (creates st) conf sid")
  case None
  with assms show ?thesis
    by (cases "stored st conf sid val") (simp_all add: uci_set_plain get_set_changed get_set_deleted)
next
  case (Some s)
  with assms show ?thesis by (simp add: uci_set_plain get_set_created stored_def)
qed

subsection \<open>Removing and reading sections\<close>

text \<open>No section is at once pending and on the device.\<close>

definition disjoint_new :: "uci \<Rightarrow> bool" where
  "disjoint_new st \<longleftrightarrow> (\<forall>conf sid. oget2 (creates st) conf sid = None \<or> oget2 (st_values st) conf sid = None)"

lemma eff_absent: "pend_ok None c d \<Longrightarrow> eff None d c None opt = None"
  by (auto simp: eff_def pend_ok_def)

lemma get_after_remove:
  assumes wf: "uci_wf st" and dj: "disjoint_new st" and "plain_sid sid" "plain_sid sid'"
  shows "uci_get conf' (Some sid') opt' (uci_remove conf sid st) =
    (if conf' = conf \<and> sid' = sid then None else uci_get conf' (Some sid') opt' st)"
proof (cases "conf' = conf \<and> sid' = sid")
  case True
  have p: "pend_ok (oget2 (st_values st) conf sid) (oget2 (changes st) conf sid) (oget2 (deletes st) conf sid)"
    by (rule pending_wf_at [OF uci_wfD(5) [OF wf]])
  have "oget2 (creates st) conf sid = None \<or> oget2 (st_values st) conf sid = None"
    using dj by (simp add: disjoint_new_def)
  then have "uci_get conf (Some sid) opt' (uci_remove conf sid st) = None"
    using p assms(3)
    by (cases "oget2 (st_values st) conf sid"; cases "oget2 (creates st) conf sid")
      (simp_all add: uci_get_eff uci_remove_def eff_absent, simp add: eff_def)
  with True show ?thesis by simp
next
  case False
  with assms show ?thesis
    by (auto simp: uci_get_eff uci_remove_def simp del: de_Morgan_conj)
qed

lemma okeys_iff: "k \<in> set (okeys m) \<longleftrightarrow> oget m k \<noteq> None"
  by (simp add: oget_None)

lemma oget_merged:
  assumes wf: "uci_wf st"
  shows "oget (s_opts (merged_section conf sid st s)) k =
     (if (\<exists>d. oget2 (deletes st) conf sid = Some (DelOpts d) \<and> oget d k \<noteq> None) then None
      else (case Option.bind (oget2 (changes st) conf sid) (\<lambda>c. oget c k) of
              Some v \<Rightarrow> Some v | None \<Rightarrow> oget (s_opts s) k))"
proof -
  have "owf c" if "oget2 (changes st) conf sid = Some c" for c
    using changes_wfD(1) [OF uci_wfD(3) [OF wf] that] .
  then have o1: "oget (case oget2 (changes st) conf sid of None \<Rightarrow> s_opts s | Some c \<Rightarrow> oassign (s_opts s) c) k =
      (case Option.bind (oget2 (changes st) conf sid) (\<lambda>c. oget c k) of
              Some v \<Rightarrow> Some v | None \<Rightarrow> oget (s_opts s) k)"
    by (simp add: oget_oassign split: option.split)
  show ?thesis
    by (cases "oget2 (deletes st) conf sid")
      (simp_all add: merged_section_def Let_def jso.lookup_remove_all o1 okeys_iff
        split: dels.split)
qed

lemma eff_merged:
  assumes wf: "uci_wf st" and "oget2 (st_values st) conf sid = Some s" and "plain_opt k"
  shows "eff None (oget2 (deletes st) conf sid) (oget2 (changes st) conf sid)
        (Some (merged_section conf sid st s)) k =
      eff None (oget2 (deletes st) conf sid) (oget2 (changes st) conf sid) (Some s) k"
    and "oget2 (deletes st) conf sid \<noteq> Some DelAll \<Longrightarrow>
      oget (s_opts (merged_section conf sid st s)) k =
      eff None (oget2 (deletes st) conf sid) (oget2 (changes st) conf sid) (Some s) k"
proof -
  have d: "oget m k \<noteq> Some False" if "oget2 (deletes st) conf sid = Some (DelOpts m)" for m
    by (rule deletes_wfD(2) [OF uci_wfD(4) [OF wf] that])
  show "eff None (oget2 (deletes st) conf sid) (oget2 (changes st) conf sid)
        (Some (merged_section conf sid st s)) k =
      eff None (oget2 (deletes st) conf sid) (oget2 (changes st) conf sid) (Some s) k"
    using assms d
    by (auto simp: eff_def sec_prop_plain oget_merged split: option.splits dels.splits)
  show "oget2 (deletes st) conf sid \<noteq> Some DelAll \<Longrightarrow>
      oget (s_opts (merged_section conf sid st s)) k =
      eff None (oget2 (deletes st) conf sid) (oget2 (changes st) conf sid) (Some s) k"
    using assms d
    by (auto simp: eff_def sec_prop_plain oget_merged split: option.splits dels.splits)
qed

text \<open>How \<open>get\<close> of a section changes the cache: at most the base section is replaced by its
  merged form.\<close>

lemma get_section_cases:
  obtains "snd (get_section conf sid0 st) = st" "fst (get_section conf sid0 st) = None"
  | sid s where "snd (get_section conf sid0 st) = st" "fst (get_section conf sid0 st) = Some s"
      "resolveSID conf sid0 st = Some sid" "oget2 (creates st) conf sid = Some s"
  | sid s where "resolveSID conf sid0 st = Some sid" "oget2 (creates st) conf sid = None"
      "oget2 (st_values st) conf sid = Some s" "oget2 (deletes st) conf sid \<noteq> Some DelAll"
      "get_section conf sid0 st = (Some (merged_section conf sid st s),
         st\<lparr>st_values := oset2 conf sid (merged_section conf sid st s) (st_values st)\<rparr>)"
  by (cases "resolveSID conf sid0 st"; cases "oget2 (creates st) conf (the (resolveSID conf sid0 st))";
      cases "oget (st_values st) conf";
      cases "oget2 (deletes st) conf (the (resolveSID conf sid0 st)) = Some DelAll";
      cases "oget2 (st_values st) conf (the (resolveSID conf sid0 st))")
    (auto simp: get_section_def Let_def oget2_def [of "st_values st"] oset2_def)

lemma sec_wf_merged:
  assumes wf: "uci_wf st" and s: "sec_wf sid s"
  shows "sec_wf sid (merged_section conf sid st s)"
proof -
  define m where "m = (case oget2 (changes st) conf sid of None \<Rightarrow> s_opts s | Some c \<Rightarrow> oassign (s_opts s) c)"
  have c: "list_all plain_opt (okeys c)" if "oget2 (changes st) conf sid = Some c" for c
    using changes_wfD(2) [OF uci_wfD(3) [OF wf] that] .
  have "list_all plain_opt (okeys (oassign o' c))" if "list_all plain_opt (okeys o')" "list_all plain_opt (okeys c)"
    for o' c :: "uval jsobj"
    using that unfolding oassign_def
    by (induction c arbitrary: o') (auto simp: list_all_okeys_oset, auto simp: okeys_def list_all_okeys_oset [unfolded okeys_def])
  with s c have m: "owf m" "list_all plain_opt (okeys m)"
    by (auto simp: m_def sec_wf_def owf_oassign split: option.split)
  have "list_all plain_opt (okeys (fold odel ks o'))" if "list_all plain_opt (okeys o')" for ks and o' :: "uval jsobj"
    using that by (induction ks arbitrary: o') (auto simp: list_all_okeys_odel)
  with m s show ?thesis
    unfolding merged_section_def m_def [symmetric] Let_def sec_wf_def
    by (simp add: owf_odel_all split: option.split dels.split)
qed

lemma get_section_wf:
  assumes wf: "uci_wf st"
  shows "uci_wf (snd (get_section conf sid0 st))"
proof (cases rule: get_section_cases [of conf sid0 st])
  case (3 sid s)
  let ?s = "merged_section conf sid st s"
  let ?st = "st\<lparr>st_values := oset2 conf sid ?s (st_values st)\<rparr>"
  have "sec_wf sid s" "plain_sid sid"
    using 3(3) uci_wfD(1) [OF wf] by (auto simp: store_wf_def)
  then have "store_wf (oset2 conf sid ?s (st_values st))"
    using wf by (simp add: store_wf_oset2 sec_wf_merged uci_wfD)
  moreover have "pending_wf ?st"
  proof (rule pending_wf_upd [OF uci_wfD(5) [OF wf], of _ conf sid])
    show "pend_ok (oget2 (st_values ?st) conf sid) (oget2 (changes ?st) conf sid) (oget2 (deletes ?st) conf sid)"
      using pending_wf_at [OF uci_wfD(5) [OF wf], of conf sid] 3(3) by (simp add: pend_ok_def)
  qed (simp add: if_not_P del: de_Morgan_conj)
  ultimately show ?thesis using wf 3(5) by (simp add: uci_wf_def)
qed (use wf in simp_all)

lemma get_after_get_section:
  assumes wf: "uci_wf st" and "plain_sid sid" "plain_opt opt"
  shows "uci_get conf (Some sid) opt (snd (get_section conf' sid0 st)) = uci_get conf (Some sid) opt st"
proof (cases rule: get_section_cases [of conf' sid0 st])
  case (3 sid' s)
  show ?thesis
  proof (cases "conf = conf' \<and> sid = sid'")
    case True
    with 3 assms show ?thesis by (simp add: uci_get_eff eff_merged(1) [OF wf])
  next
    case False
    with 3 assms show ?thesis by (auto simp: uci_get_eff simp del: de_Morgan_conj)
  qed
qed simp_all

lemma get_section_value:
  assumes wf: "uci_wf st" and "plain_sid sid" "plain_opt opt"
  shows "fst (get_section conf (Some sid) st) = Some s \<Longrightarrow> oget (s_opts s) opt = uci_get conf (Some sid) opt st"
  using assms
  by (cases rule: get_section_cases [of conf "Some sid" st])
    (auto simp: uci_get_eff eff_created eff_merged(2) [OF wf])

section \<open>The interface of the cache\<close>

text \<open>
  What the components above the cache (firewall, network) rely on: a writable section behaves as
  a map from option names to values, a write is visible at once and nowhere else, and writing
  keeps the state valid and the sections writable.
\<close>

locale config_store =
  fixes get :: "'s \<Rightarrow> string \<Rightarrow> string \<Rightarrow> string \<Rightarrow> 'v option"
    and put :: "string \<Rightarrow> string \<Rightarrow> string \<Rightarrow> 'v option \<Rightarrow> 's \<Rightarrow> 's"
    and ok :: "'s \<Rightarrow> string \<Rightarrow> string \<Rightarrow> bool"
    and valid :: "'s \<Rightarrow> bool"
    and storable :: "'v option \<Rightarrow> bool"
    and sname :: "string \<Rightarrow> bool"
    and oname :: "string \<Rightarrow> bool"
  assumes get_put: "valid s \<Longrightarrow> ok s c i \<Longrightarrow> oname k \<Longrightarrow> storable v \<Longrightarrow> sname i' \<Longrightarrow> oname k' \<Longrightarrow>
      get (put c i k v s) c' i' k' = (if c' = c \<and> i' = i \<and> k' = k then v else get s c' i' k')"
    and valid_put: "valid s \<Longrightarrow> valid (put c i k v s)"
    and ok_put: "valid s \<Longrightarrow> ok (put c i k v s) c' i' = ok s c' i'"
    and ok_sname: "ok s c i \<Longrightarrow> sname i"
begin

lemma put_all_valid:
  "valid s \<Longrightarrow> valid (fold (\<lambda>(k, v). put c i k (Some v)) kvs s) \<and>
     ok (fold (\<lambda>(k, v). put c i k (Some v)) kvs s) c' i' = ok s c' i'"
proof (induction kvs arbitrary: s)
  case (Cons p kvs)
  then show ?case by (cases p) (simp add: valid_put ok_put)
qed simp

text \<open>Writing a batch of options: the last write of each option is what is read, and nothing else
  changes.\<close>

lemma get_put_all:
  assumes "valid s" "ok s c i" "\<And>k v. (k, v) \<in> set kvs \<Longrightarrow> oname k \<and> storable (Some v)"
    and "sname i'" "oname k'"
  shows "get (fold (\<lambda>(k, v). put c i k (Some v)) kvs s) c' i' k' =
    (if c' = c \<and> i' = i then (case map_of (rev kvs) k' of Some v \<Rightarrow> Some v | None \<Rightarrow> get s c' i' k')
     else get s c' i' k')"
  using assms(1,2,3)
proof (induction kvs arbitrary: s)
  case Nil
  then show ?case by simp
next
  case (Cons p kvs)
  obtain k v where p: "p = (k, v)" by (cases p)
  have kv: "oname k" "storable (Some v)" using Cons.prems(3) [of k v] by (auto simp: p)
  have "get (fold (\<lambda>(k, v). put c i k (Some v)) kvs (put c i k (Some v) s)) c' i' k' =
    (if c' = c \<and> i' = i then (case map_of (rev kvs) k' of Some v \<Rightarrow> Some v
       | None \<Rightarrow> get (put c i k (Some v) s) c' i' k') else get (put c i k (Some v) s) c' i' k')"
  proof (rule Cons.IH)
    show "oname k \<and> storable (Some v)" if "(k, v) \<in> set kvs" for k v
      by (rule Cons.prems(3)) (simp add: that)
  qed (use Cons.prems in \<open>simp_all add: valid_put ok_put\<close>)
  moreover have "get (put c i k (Some v) s) c' i' k' =
      (if c' = c \<and> i' = i \<and> k' = k then Some v else get s c' i' k')"
    by (rule get_put [OF Cons.prems(1,2) kv assms(4,5)])
  ultimately show ?case
    by (cases "map_of (rev kvs) k'"; cases "c' = c \<and> i' = i"; cases "k' = k")
      (simp_all add: p map_add_def if_not_P del: de_Morgan_conj)
qed

text \<open>Options of different sections or names can be written in either order.\<close>

lemma put_swap:
  assumes "valid s" "ok s c i" "ok s d j" "oname k" "oname l" "storable v" "storable w"
    "sname i'" "oname k'" "c \<noteq> d \<or> i \<noteq> j \<or> k \<noteq> l"
  shows "get (put c i k v (put d j l w s)) c' i' k' = get (put d j l w (put c i k v s)) c' i' k'"
  using assms by (auto simp: get_put valid_put ok_put)

lemma put_put:
  assumes "valid s" "ok s c i" "oname k" "storable v" "storable w" "sname i'" "oname k'"
  shows "get (put c i k v (put c i k w s)) c' i' k' = get (put c i k v s) c' i' k'"
  using assms by (auto simp: get_put valid_put ok_put)

end

lemma writable_set_created: "oget2 (creates st) conf sid = Some s \<Longrightarrow>
  writable (set_created conf sid opt val s st) c i = writable st c i"
  by (auto simp: writable_def set_created_def)

lemma undelete_DelAll: "oget2 (undelete conf sid opt d) c i = Some DelAll \<longleftrightarrow> oget2 d c i = Some DelAll"
  by (cases "c = conf \<and> i = sid")
    (simp_all add: oget2_undelete if_not_P del: de_Morgan_conj split: option.split dels.split)

lemma mark_deleted_DelAll: "oget2 (mark_deleted conf sid opt d) c i = Some DelAll \<longleftrightarrow> oget2 d c i = Some DelAll"
  by (cases "c = conf \<and> i = sid")
    (simp_all add: oget2_mark_deleted if_not_P del: de_Morgan_conj split: option.split dels.split)

lemma writable_set_changed: "writable (set_changed conf sid opt v st) c i = writable st c i"
  by (simp add: writable_def set_changed_def undelete_DelAll)

lemma writable_set_deleted: "writable (set_deleted conf sid opt st) c i = writable st c i"
  by (simp add: writable_def set_deleted_def Let_def mark_deleted_DelAll split: option.split)

lemma writable_set: "writable (uci_set conf sid opt val st) c i = writable st c i"
  unfolding uci_set_def
  by (simp add: writable_set_created writable_set_changed writable_set_deleted split: option.split)

interpretation uc: config_store "\<lambda>s c i k. uci_get c (Some i) k s" "\<lambda>c i k v. uci_set c (Some i) (Some k) v"
  "\<lambda>s c i. plain_sid i \<and> writable s c i" uci_wf "\<lambda>v. v \<noteq> Some (UStr [])" plain_sid plain_opt
  by unfold_locales (auto simp: get_after_set stored_def uci_set_wf writable_set)

section \<open>Creating sections\<close>

lemma createSID_loop_at:
  assumes "i \<le> j" and "\<And>k. i \<le> k \<Longrightarrow> k < j \<Longrightarrow> taken st conf (sid_of (rnd st k))"
    and "\<not> taken st conf (sid_of (rnd st j))"
  shows "createSID_loop st conf i = Some (sid_of (rnd st j), Suc j)"
  using assms
proof (induction "j - i" arbitrary: i)
  case 0
  then show ?case by (simp add: createSID_loop.simps [of st conf i])
next
  case (Suc n)
  then have "taken st conf (sid_of (rnd st i))" by simp
  moreover have "createSID_loop st conf (Suc i) = Some (sid_of (rnd st j), Suc j)"
    by (rule Suc.hyps(1)) (use Suc in auto)
  ultimately show ?case by (simp add: createSID_loop.simps [of st conf i])
qed

lemma createSID_loop_result:
  "createSID_loop st conf i = Some r \<Longrightarrow> plain_sid (fst r) \<and> \<not> taken st conf (fst r)"
  by (rule createSID_loop.raw_induct [of "\<lambda>st conf i r. plain_sid (fst r) \<and> \<not> taken st conf (fst r)"])
    (auto simp: plain_sid_of split: if_splits)

lemma createSID_fresh:
  assumes "\<exists>i \<ge> rpos st. \<not> taken st conf (sid_of (rnd st i))"
  obtains j where "createSID conf st = Ret (sid_of (rnd st j), st\<lparr>rpos := Suc j\<rparr>)"
    "rpos st \<le> j" "\<not> taken st conf (sid_of (rnd st j))"
proof -
  let ?P = "\<lambda>i. rpos st \<le> i \<and> \<not> taken st conf (sid_of (rnd st i))"
  define j where "j = (LEAST i. ?P i)"
  have j: "?P j" unfolding j_def by (rule LeastI_ex) (use assms in auto)
  have "\<And>k. rpos st \<le> k \<Longrightarrow> k < j \<Longrightarrow> taken st conf (sid_of (rnd st k))"
    using not_less_Least unfolding j_def by blast
  with j have "createSID_loop st conf (rpos st) = Some (sid_of (rnd st j), Suc j)"
    by (intro createSID_loop_at) auto
  with j show ?thesis by (intro that [of j]) (simp_all add: createSID_def)
qed

lemma uci_add_wf:
  assumes wf: "uci_wf st" and "\<And>n. name = Some n \<Longrightarrow> plain_sid n"
    and r: "uci_add conf ty name st = Ret (sid, st')"
  shows "uci_wf st' \<and> plain_sid sid"
proof -
  have sid: "plain_sid sid \<and> (\<exists>st1. uci_wf st1 \<and> st' = st1\<lparr>creates := oset2 conf sid
            \<lparr>s_type = ty, s_name = sid, s_create = name,
             s_anonymous = (name = None \<or> name = Some []),
             s_index = 1000 + newidx st1, s_opts = []\<rparr> (creates st1), newidx := newidx st1 + 1\<rparr>)"
  proof (cases "\<exists>n. name = Some n \<and> n \<noteq> []")
    case True
    with assms show ?thesis by (auto simp: uci_add_def)
  next
    case False
    then have "createSID conf st \<noteq> Hang" "\<forall>e. createSID conf st \<noteq> Throw e"
      using r by (auto simp: uci_add_def split: option.splits if_splits)
    then obtain s i where "createSID conf st = Ret (s, st\<lparr>rpos := i\<rparr>)" "createSID_loop st conf (rpos st) = Some (s, i)"
      by (cases "createSID_loop st conf (rpos st)") (auto simp: createSID_def)
    moreover from this have "plain_sid s" using createSID_loop_result by fastforce
    moreover have "uci_wf (st\<lparr>rpos := i\<rparr>)" using wf by (simp add: uci_wf_def pending_wf_def)
    ultimately show ?thesis using r False by (auto simp: uci_add_def split: option.splits if_splits)
  qed
  then obtain st1 where "plain_sid sid" "uci_wf st1" and st': "st' = st1\<lparr>creates := oset2 conf sid
            \<lparr>s_type = ty, s_name = sid, s_create = name,
             s_anonymous = (name = None \<or> name = Some []),
             s_index = 1000 + newidx st1, s_opts = []\<rparr> (creates st1), newidx := newidx st1 + 1\<rparr>" by blast
  then show ?thesis
    unfolding st' uci_wf_def
    by (auto simp: pending_wf_def sec_wf_def okeys_def intro!: store_wf_oset2)
qed

section \<open>A sample state\<close>

text \<open>A loaded package with two sections, one of them with a pending change and a pending deletion,
  and a section that is only pending.\<close>

definition sample_section :: "string \<Rightarrow> string \<Rightarrow> int \<Rightarrow> uval jsobj \<Rightarrow> uci_section" where
  "sample_section t n i ops = \<lparr>s_type = t, s_name = n, s_create = None, s_anonymous = False, s_index = i, s_opts = ops\<rparr>"

definition sample :: uci where
  "sample = \<lparr>newidx = 1,
     st_values = [(''net'', [
       (''lan'', sample_section ''iface'' ''lan'' 0 [(''proto'', UStr ''static''), (''mtu'', UStr ''1500'')]),
       (''wan'', sample_section ''iface'' ''wan'' 1 [(''proto'', UStr ''dhcp'')])])],
     creates = [(''net'', [(''new00000a'', sample_section ''route'' ''new00000a'' 1000 [])])],
     changes = [(''net'', [(''lan'', [(''proto'', UStr ''dhcp'')])])],
     deletes = [(''net'', [(''lan'', DelOpts [(''mtu'', True)])])],
     reorder = [], loaded = [], rnd = (\<lambda>i. i), rpos = 0\<rparr>"

lemma plain_literals:
  "plain_sid ''lan''" "plain_sid ''wan''" "plain_sid ''new00000a''" "plain_opt ''proto''" "plain_opt ''mtu''"
  by (simp_all add: plain_sid_def plain_opt_def)

lemma sample_lookups:
  "oget2 (st_values sample) conf sid =
     (if conf = ''net'' \<and> sid = ''lan'' then
        Some (sample_section ''iface'' ''lan'' 0 [(''proto'', UStr ''static''), (''mtu'', UStr ''1500'')])
      else if conf = ''net'' \<and> sid = ''wan'' then Some (sample_section ''iface'' ''wan'' 1 [(''proto'', UStr ''dhcp'')])
      else None)"
  "oget2 (creates sample) conf sid =
     (if conf = ''net'' \<and> sid = ''new00000a'' then Some (sample_section ''route'' ''new00000a'' 1000 []) else None)"
  "oget2 (changes sample) conf sid =
     (if conf = ''net'' \<and> sid = ''lan'' then Some [(''proto'', UStr ''dhcp'')] else None)"
  "oget2 (deletes sample) conf sid =
     (if conf = ''net'' \<and> sid = ''lan'' then Some (DelOpts [(''mtu'', True)]) else None)"
  by (auto simp: sample_def oget2_def oget_def)

lemma sample_owf:
  "owf2 (st_values sample)" "owf2 (creates sample)" "owf2 (changes sample)" "owf2 (deletes sample)"
  by (simp_all add: sample_def owf2_def owf_def oget_def)

lemma sample_wf: "uci_wf sample"
proof -
  have "store_wf (st_values sample)" "store_wf (creates sample)"
    by (auto simp: store_wf_def sample_owf sample_lookups sec_wf_def sample_section_def plain_literals owf_def okeys_def
        split: if_splits)
  moreover have "changes_wf (changes sample)" "deletes_wf (deletes sample)"
    by (auto simp: changes_wf_def deletes_wf_def sample_owf sample_lookups owf_def okeys_def oget_def plain_literals
        split: if_splits)
  moreover have "pending_wf sample"
    by (auto simp: pending_wf_def pend_ok_def sample_lookups oget_def)
  ultimately show ?thesis by (simp add: uci_wf_def)
qed

lemma sample_disjoint: "disjoint_new sample"
  by (simp add: disjoint_new_def sample_lookups)

lemma sample_writable: "writable sample ''net'' ''lan''" "writable sample ''net'' ''wan''" "writable sample ''net'' ''new00000a''"
  by (simp_all add: writable_def sample_lookups)

section \<open>Properties\<close>

text \<open>
  C1.  On a well-formed cache, \<open>set\<close> on a section that exists is a map update of what
  \<open>get\<close> sees: the option reads as the written value (an empty string removes an option of a section
  that is on the device), every other option of every section of every package reads as before.
\<close>

theorem uci_get_after_set:
  assumes "uci_wf st" "writable st conf sid" "plain_sid sid" "plain_opt opt" "plain_sid sid'" "plain_opt opt'"
  shows "uci_get conf' (Some sid') opt' (uci_set conf (Some sid) (Some opt) val st) =
    (if conf' = conf \<and> sid' = sid \<and> opt' = opt then stored st conf sid val
     else uci_get conf' (Some sid') opt' st)"
  using assms by (rule get_after_set)

theorem uci_get_after_set_witness:
  "uci_get ''net'' (Some ''lan'') ''mtu'' (uci_set ''net'' (Some ''lan'') (Some ''mtu'') (Some (UStr ''9000'')) sample)
     = Some (UStr ''9000'')"
  using uci_get_after_set [OF sample_wf sample_writable(1) plain_literals(1,5,1,5), of "''net''" "Some (UStr ''9000'')"]
  by (simp add: stored_def)

text \<open>
  C16.  \<open>get\<close> of a whole section, which merges the pending changes and deletions into the cached
  base section, returns exactly the options a reader of single options sees, and neither breaks
  the invariant nor changes what any later \<open>get\<close> returns.
\<close>

theorem uci_get_section_agrees:
  assumes "uci_wf st" "plain_sid sid" "plain_opt opt" "plain_sid sid'"
  shows "uci_get conf' (Some sid') opt (snd (get_section conf (Some sid) st)) = uci_get conf' (Some sid') opt st \<and>
    uci_wf (snd (get_section conf (Some sid) st)) \<and>
    (case fst (get_section conf (Some sid) st) of
       Some s \<Rightarrow> oget (s_opts s) opt = uci_get conf (Some sid) opt st
     | None \<Rightarrow> uci_get conf (Some sid) opt st = None)"
proof -
  have "uci_get conf (Some sid) opt st = None" if n: "fst (get_section conf (Some sid) st) = None"
  proof -
    have c: "oget2 (creates st) conf sid = None"
      using n assms(2) by (auto simp: get_section_def split: option.splits)
    have "oget2 (deletes st) conf sid = Some DelAll \<or> oget2 (st_values st) conf sid = None"
      using n c assms(2)
      by (cases "oget (st_values st) conf"; cases "oget2 (st_values st) conf sid")
        (auto simp: get_section_def Let_def oget2_def [of "st_values st"] split: if_splits)
    then show ?thesis
      using c assms(2) eff_absent pending_wf_at [OF uci_wfD(5) [OF assms(1)], of conf sid]
      by (auto simp: uci_get_eff) (simp add: eff_def)
  qed
  then show ?thesis
    using assms by (auto simp: get_after_get_section get_section_wf get_section_value split: option.split)
qed

theorem uci_get_section_agrees_witness:
  "fst (get_section ''net'' (Some ''lan'') sample) \<noteq> None \<and>
   uci_get ''net'' (Some ''lan'') ''mtu'' (snd (get_section ''net'' (Some ''lan'') sample)) = None"
proof -
  have "uci_get ''net'' (Some ''lan'') ''mtu'' sample = None"
    by (simp add: uci_get_eff plain_literals eff_def sample_lookups oget_def)
  moreover have "fst (get_section ''net'' (Some ''lan'') sample) \<noteq> None"
    by code_simp
  ultimately show ?thesis
    using uci_get_section_agrees [OF sample_wf plain_literals(1,5,1), of "''net''" "''net''"] by simp
qed

text \<open>
  C17.  \<open>remove\<close> of a section makes all of it unreadable at once, whether it was pending or on the
  device, and changes no other section.
\<close>

theorem uci_get_after_remove:
  assumes "uci_wf st" "disjoint_new st" "plain_sid sid" "plain_sid sid'"
  shows "uci_get conf' (Some sid') opt' (uci_remove conf sid st) =
    (if conf' = conf \<and> sid' = sid then None else uci_get conf' (Some sid') opt' st)"
  using assms by (rule get_after_remove)

theorem uci_get_after_remove_witness:
  "uci_get ''net'' (Some ''wan'') ''proto'' (uci_remove ''net'' ''lan'' sample) = Some (UStr ''dhcp'') \<and>
   uci_get ''net'' (Some ''lan'') ''proto'' (uci_remove ''net'' ''lan'' sample) = None"
  using uci_get_after_remove [OF sample_wf sample_disjoint plain_literals(1,2), of "''net''" "''proto''" "''net''"]
    uci_get_after_remove [OF sample_wf sample_disjoint plain_literals(1,1), of "''net''" "''proto''" "''net''"]
  by (simp add: uci_get_eff plain_literals eff_def sample_lookups sample_section_def sec_prop_def oget_def)

text \<open>
  C18.  \<open>add\<close> without a name returns as soon as one of the random draws gives an unused
  identifier; the section is then created under an identifier no section of the package had, it is
  well-formed, writable and has the requested type, and no other section changes.
\<close>

theorem uci_add_creates_fresh:
  assumes "uci_wf st" "disjoint_new st" "\<exists>i \<ge> rpos st. \<not> taken st conf (sid_of (rnd st i))"
  shows "\<exists>sid st'. uci_add conf ty None st = Ret (sid, st') \<and> \<not> taken st conf sid \<and> plain_sid sid \<and>
    uci_wf st' \<and> disjoint_new st' \<and> writable st' conf sid \<and>
    uci_get conf (Some sid) ''.type'' st' = Some (UStr ty) \<and>
    (\<forall>c i k. plain_sid i \<longrightarrow> \<not> (c = conf \<and> i = sid) \<longrightarrow> uci_get c (Some i) k st' = uci_get c (Some i) k st)"
proof -
  obtain j where j: "createSID conf st = Ret (sid_of (rnd st j), st\<lparr>rpos := Suc j\<rparr>)"
    "\<not> taken st conf (sid_of (rnd st j))"
    using createSID_fresh [OF assms(3)] by metis
  let ?sid = "sid_of (rnd st j)"
  obtain st' where r: "uci_add conf ty None st = Ret (?sid, st')"
    and st': "creates st' = oset2 conf ?sid \<lparr>s_type = ty, s_name = ?sid, s_create = None, s_anonymous = True,
        s_index = 1000 + newidx st, s_opts = []\<rparr> (creates st)"
      "st_values st' = st_values st" "changes st' = changes st" "deletes st' = deletes st"
    by (simp add: uci_add_def j)
  have p: "plain_sid ?sid" by (rule plain_sid_of)
  have "uci_wf st'" using uci_add_wf [OF assms(1) _ r] by simp
  moreover have "disjoint_new st'" using assms(2) j(2) by (simp add: disjoint_new_def st' taken_def)
  moreover have "writable st' conf ?sid" by (simp add: writable_def st')
  moreover have "uci_get conf (Some ?sid) ''.type'' st' = Some (UStr ty)"
    using p by (simp add: uci_get_eff st' eff_def sec_prop_def)
  moreover have "uci_get c (Some i) k st' = uci_get c (Some i) k st"
    if "plain_sid i" "\<not> (c = conf \<and> i = ?sid)" for c i k
    using that by (auto simp: uci_get_eff st' simp del: de_Morgan_conj)
  ultimately show ?thesis
    using r j(2) p by (intro exI [of _ ?sid] exI [of _ st']) simp
qed

theorem uci_add_creates_fresh_witness:
  "\<exists>sid st'. uci_add ''net'' ''route'' None sample = Ret (sid, st') \<and> \<not> taken sample ''net'' sid"
proof -
  have "\<not> taken sample ''net'' (sid_of (rnd sample 0))"
    by code_simp
  then have "\<exists>i \<ge> rpos sample. \<not> taken sample ''net'' (sid_of (rnd sample i))"
    by (intro exI [of _ 0]) (simp add: sample_def)
  from uci_add_creates_fresh [OF sample_wf sample_disjoint this, of "''route''"] show ?thesis by blast
qed



end
