(* ===== verification/UciOrder.thy ===== *)
theory UciOrder
  imports UciLaws "HOL-Library.Multiset"
begin

text \<open>
  The order of sections: what \<open>sections\<close> returns, and that \<open>move\<close> puts a section where it
  is asked to, never fails on a well-formed state and leaves every option as it was.
\<close>

section \<open>Sections in order\<close>

definition eff_names :: "string \<Rightarrow> uci \<Rightarrow> string list" where
  "eff_names conf st =
     (case oget (st_values st) conf of
        None \<Rightarrow> []
      | Some v \<Rightarrow> filter (\<lambda>sid. oget2 (deletes st) conf sid \<noteq> Some DelAll) (okeys v)) @
     (case oget (creates st) conf of None \<Rightarrow> [] | Some n \<Rightarrow> okeys n)"

definition index_of :: "uci \<Rightarrow> string \<Rightarrow> string \<Rightarrow> int" where
  "index_of st conf sid =
     (case oget2 (creates st) conf sid of
        Some s \<Rightarrow> s_index s
      | None \<Rightarrow> (case oget2 (st_values st) conf sid of Some s \<Rightarrow> s_index s | None \<Rightarrow> 0))"

lemma merge_changes_simps [simp]:
  "s_name (merge_changes c sid s) = s_name s"
  "s_index (merge_changes c sid s) = s_index s"
  "s_type (merge_changes c sid s) = s_type s"
  by (simp_all add: merge_changes_def split: option.split)

lemma reindex_names [simp]: "map s_name (reindex i ss) = map s_name ss"
  by (induction i ss rule: reindex.induct) simp_all

lemma reindex_length [simp]: "length (reindex i ss) = length ss"
  by (induction i ss rule: reindex.induct) simp_all

lemma reindex_indexes: "map s_index (reindex i ss) = map (\<lambda>n. i + int n) [0..<length ss]"
proof (induction i ss rule: reindex.induct)
  case (2 i s ss)
  then show ?case by (simp add: upt_conv_Cons map_Suc_upt [symmetric] del: upt_Suc)
qed simp

lemma entry_in:
  assumes "store_wf m" "oget m conf = Some v" "(sid, s) \<in> set v"
  shows "oget2 m conf sid = Some s" "s_name s = sid"
proof -
  have "owf v" using assms by (auto simp: store_wf_def owf2_def)
  then show "oget2 m conf sid = Some s" using assms by (simp add: oget2_def oget_Some)
  then show "s_name s = sid" using assms by (simp add: store_wfD)
qed

lemma raw_names:
  assumes wf: "uci_wf st" and v: "oget (st_values st) conf = Some v"
  shows "map s_name (sections_raw conf None st v) = eff_names conf st"
proof -
  have m: "store_wf (st_values st)" "store_wf (creates st)" using wf by (simp_all add: uci_wfD)
  have b: "map s_name (map (\<lambda>(sid, s). merge_changes (oget (changes st) conf) sid s)
       (filter (\<lambda>(sid, s). oget2 (deletes st) conf sid \<noteq> Some DelAll \<and> type_matches None s) u)) =
     filter (\<lambda>sid. oget2 (deletes st) conf sid \<noteq> Some DelAll) (okeys u)" if "set u \<subseteq> set v" for u
    using that
  proof (induction u)
    case (Cons p u)
    obtain sid s where p: "p = (sid, s)" by (cases p)
    with Cons.prems have "s_name s = sid" using entry_in(2) [OF m(1) v] by auto
    with Cons p show ?case by (simp add: okeys_def type_matches_def)
  qed (simp add: okeys_def)
  have "map s_name (filter (type_matches None) (map snd n)) = okeys n" if "oget (creates st) conf = Some n" for n
    using entry_in(2) [OF m(2) that] by (auto simp: okeys_def type_matches_def)
  with b [of v] v show ?thesis
    by (simp add: sections_raw_def eff_names_def split: option.split)
qed

lemma raw_index:
  assumes wf: "uci_wf st" and dj: "disjoint_new st" and v: "oget (st_values st) conf = Some v"
    and x: "x \<in> set (sections_raw conf None st v)"
  shows "s_index x = index_of st conf (s_name x)"
proof -
  have m: "store_wf (st_values st)" "store_wf (creates st)" using wf by (simp_all add: uci_wfD)
  from x consider sid s where "(sid, s) \<in> set v" "x = merge_changes (oget (changes st) conf) sid s"
    | n sid s where "oget (creates st) conf = Some n" "(sid, s) \<in> set n" "x = s"
    by (cases "oget (creates st) conf") (auto simp: sections_raw_def)
  then show ?thesis
  proof cases
    case (1 sid s)
    then have s: "oget2 (st_values st) conf sid = Some s" "s_name s = sid"
      using entry_in [OF m(1) v] by auto
    with dj have "oget2 (creates st) conf sid = None"
      unfolding disjoint_new_def by (metis option.distinct(1))
    with 1 s show ?thesis by (simp add: index_of_def)
  next
    case (2 n sid s)
    with entry_in [OF m(2) 2(1), of sid s] show ?thesis by (simp add: index_of_def)
  qed
qed

lemma eff_names_distinct:
  assumes wf: "uci_wf st" and dj: "disjoint_new st"
  shows "distinct (eff_names conf st)"
proof -
  have o: "distinct (okeys v)" if "oget (st_values st) conf = Some v" for v
    using that wf by (simp add: uci_wf_def store_wf_def owf2_def owf_def okeys_def)
  have n: "distinct (okeys v)" if "oget (creates st) conf = Some v" for v
    using that wf by (simp add: uci_wf_def store_wf_def owf2_def owf_def okeys_def)
  have i: "set (okeys v) \<inter> set (okeys w) = {}"
    if "oget (st_values st) conf = Some v" "oget (creates st) conf = Some w" for v w
  proof -
    have "oget v x = None \<or> oget w x = None" for x
      using dj [unfolded disjoint_new_def, rule_format, of conf x] that by (auto simp: oget2_def)
    then show ?thesis by (metis disjoint_iff okeys_iff)
  qed
  show ?thesis
  proof (cases "oget (st_values st) conf"; cases "oget (creates st) conf")
    fix v w assume "oget (st_values st) conf = Some v" "oget (creates st) conf = Some w"
    with o n i [of v w] show ?thesis by (simp add: eff_names_def disjoint_iff)
  qed (simp_all add: eff_names_def o n)
qed

text \<open>A stable sort by the position in a given order of distinct names yields that order.\<close>

lemma sort_key_names:
  assumes "distinct ns" "distinct (map f xs)" "set (map f xs) = set ns"
    and "\<And>i. i < length ns \<Longrightarrow> \<forall>x \<in> set xs. f x = ns ! i \<longrightarrow> key x = int i"
  shows "map f (sort_key key xs) = ns"
proof -
  define pos where "pos n = (THE i. i < length ns \<and> ns ! i = n)" for n
  have pos: "pos (ns ! i) = i" if "i < length ns" for i
    unfolding pos_def using that assms(1) by (auto simp: nth_eq_iff_index_eq)
  have key: "key x = int (pos (f x))" if "x \<in> set xs" for x
  proof -
    have "f x \<in> set ns" using that assms(3) by auto
    then obtain i where "i < length ns" "ns ! i = f x" by (auto simp: in_set_conv_nth)
    with assms(4) [of i] that pos [of i] show ?thesis by auto
  qed
  let ?ys = "sort_key key xs"
  have inj: "inj_on pos (set ns)"
    by (rule inj_onI) (metis in_set_conv_nth pos)
  have "sorted (map key ?ys)" by simp
  moreover have "map key ?ys = map int (map pos (map f ?ys))" by (simp add: key)
  ultimately have s1: "sorted (map pos (map f ?ys))"
    by (simp add: sorted_map o_def)
  have "map pos ns = [0..<length ns]" by (rule nth_equalityI) (simp_all add: pos)
  then have s2: "sorted (map pos ns)" by simp
  have d: "distinct (map f ?ys)"
    using assms(2) by (rule mset_eq_imp_distinct_iff [THEN iffD1, rotated]) simp
  have "map pos (map f ?ys) = map pos ns"
  proof (rule sorted_distinct_set_unique)
    show "distinct (map pos (map f ?ys))"
      using d assms(3) inj by (subst distinct_map) (metis set_map set_sort)
    show "distinct (map pos ns)" using assms(1) inj by (simp add: distinct_map)
    show "set (map pos (map f ?ys)) = set (map pos ns)"
      using assms(3) by (metis set_map set_sort)
  qed (fact s1, fact s2)
  moreover have "inj_on pos (set (map f ?ys) \<union> set ns)"
    using inj assms(3) by (metis set_map set_sort sup_idem)
  ultimately show ?thesis by (metis map_inj_on)
qed

lemma sections_names:
  assumes wf: "uci_wf st" and dj: "disjoint_new st" and v: "oget (st_values st) conf = Some v"
    and ns: "distinct ns" "set ns = set (eff_names conf st)"
    and idx: "\<And>i. i < length ns \<Longrightarrow> index_of st conf (ns ! i) = int i"
  shows "map s_name (uci_sections conf None st) = ns"
proof -
  have "map s_name (sort_key s_index (sections_raw conf None st v)) = ns"
  proof (rule sort_key_names)
    show "distinct (map s_name (sections_raw conf None st v))"
      using raw_names [OF wf v] eff_names_distinct [OF wf dj] by simp
    show "set (map s_name (sections_raw conf None st v)) = set ns"
      using raw_names [OF wf v] ns by simp
    show "\<forall>x \<in> set (sections_raw conf None st v). s_name x = ns ! i \<longrightarrow> s_index x = int i"
      if "i < length ns" for i
      using raw_index [OF wf dj v] idx [OF that] by auto
  qed (fact ns)
  then show ?thesis by (simp add: uci_sections_def v)
qed

lemma sections_name_set:
  assumes wf: "uci_wf st" and v: "oget (st_values st) conf = Some v"
  shows "mset (map s_name (uci_sections conf None st)) = mset (eff_names conf st)"
  by (simp add: uci_sections_def v raw_names [OF wf v, symmetric] mset_map del: map_map)

section \<open>Moving a section\<close>

text \<open>What renumbering sections leaves alone: the sections and their order in the cache, the pending
  deletions, and every option a reader sees.\<close>

definition same_content :: "string \<Rightarrow> uci \<Rightarrow> uci \<Rightarrow> bool" where
  "same_content conf st st' \<longleftrightarrow>
     uci_wf st' \<and> disjoint_new st' \<and> eff_names conf st' = eff_names conf st \<and>
     (oget (st_values st') conf = None \<longleftrightarrow> oget (st_values st) conf = None) \<and>
     (\<forall>c i k. plain_sid i \<longrightarrow> plain_opt k \<longrightarrow> uci_get c (Some i) k st' = uci_get c (Some i) k st)"

lemma same_content_refl: "uci_wf st \<Longrightarrow> disjoint_new st \<Longrightarrow> same_content conf st st"
  by (simp add: same_content_def)

lemma same_content_trans: "same_content conf a b \<Longrightarrow> same_content conf b c \<Longrightarrow> same_content conf a c"
  by (simp add: same_content_def)

lemma same_content_creates:
  assumes wf: "uci_wf st" and dj: "disjoint_new st" and s: "oget2 (creates st) conf n = Some s"
  shows "same_content conf st (st\<lparr>creates := oset2 conf n (s\<lparr>s_index := i\<rparr>) (creates st)\<rparr>)"
    (is "same_content conf st ?st")
proof -
  have "sec_wf n s" "plain_sid n" using s wf by (auto simp: uci_wf_def store_wf_def)
  then have "store_wf (creates ?st)"
    using wf by (simp add: uci_wf_def sec_wf_def store_wf_oset2)
  then have 1: "uci_wf ?st" using wf by (simp add: uci_wf_def pending_wf_def)
  obtain m where m: "oget (creates st) conf = Some m" "oget m n = Some s"
    using s by (auto simp: oget2_def bind_eq_Some_conv)
  then have 2: "eff_names conf ?st = eff_names conf st"
    by (simp add: eff_names_def oset2_def okeys_oset_old cong: option.case_cong)
  have "oget2 (st_values st) conf n = None"
    using dj [unfolded disjoint_new_def, rule_format, of conf n] s by simp
  then have 3: "disjoint_new ?st" using dj by (simp add: disjoint_new_def)
  have "uci_get c (Some j) k ?st = uci_get c (Some j) k st" if "plain_sid j" "plain_opt k" for c j k
    using that s by (cases "c = conf \<and> j = n") (auto simp: uci_get_eff eff_created)
  with 1 2 3 show ?thesis by (simp add: same_content_def)
qed

lemma same_content_values:
  assumes wf: "uci_wf st" and dj: "disjoint_new st" and s: "oget2 (st_values st) conf n = Some s"
  shows "same_content conf st (st\<lparr>st_values := oset2 conf n ((merged_section conf n st s)\<lparr>s_index := i\<rparr>) (st_values st)\<rparr>)"
    (is "same_content conf st (st\<lparr>st_values := oset2 conf n ?s _\<rparr>)" is "same_content conf st ?st")
proof -
  have "sec_wf n s" and n: "plain_sid n" using s wf by (auto simp: uci_wf_def store_wf_def)
  then have "sec_wf n ?s" using sec_wf_merged [OF wf, of n s conf] by (simp add: sec_wf_def)
  then have w: "store_wf (st_values ?st)" using wf n by (simp add: uci_wf_def store_wf_oset2)
  have "pending_wf ?st"
  proof (rule pending_wf_upd [OF uci_wfD(5) [OF wf], of _ conf n])
    show "pend_ok (oget2 (st_values ?st) conf n) (oget2 (changes ?st) conf n) (oget2 (deletes ?st) conf n)"
      using pending_wf_at [OF uci_wfD(5) [OF wf], of conf n] s by (simp add: pend_ok_def)
  qed (simp add: if_not_P del: de_Morgan_conj)
  with w have 1: "uci_wf ?st" using wf by (simp add: uci_wf_def)
  obtain m where m: "oget (st_values st) conf = Some m" "oget m n = Some s"
    using s by (auto simp: oget2_def bind_eq_Some_conv)
  then have 2: "eff_names conf ?st = eff_names conf st"
    by (simp add: eff_names_def oset2_def okeys_oset_old cong: option.case_cong)
  have "oget2 (creates st) conf n = None"
    using dj [unfolded disjoint_new_def, rule_format, of conf n] s by simp
  then have 3: "disjoint_new ?st" using dj by (simp add: disjoint_new_def)
  have 4: "oget (st_values ?st) conf \<noteq> None" by (simp add: oset2_def)
  have "eff x d c (Some ?s) k = eff x d c (Some (merged_section conf n st s)) k" if "plain_opt k" for x d c k
    using that by (simp add: eff_def sec_prop_plain cong: option.case_cong)
  then have "uci_get c (Some j) k ?st = uci_get c (Some j) k st" if "plain_sid j" "plain_opt k" for c j k
    using that s eff_merged(1) [OF wf s, of k]
    by (cases "c = conf \<and> j = n"; cases "oget2 (creates st) c j") (auto simp: uci_get_eff eff_created)
  with 1 2 3 4 m show ?thesis by (simp add: same_content_def)
qed

lemma eff_names_iff:
  assumes "oget (st_values st) conf = Some v"
  shows "n \<in> set (eff_names conf st) \<longleftrightarrow> oget2 (creates st) conf n \<noteq> None \<or>
    (oget2 (st_values st) conf n \<noteq> None \<and> oget2 (deletes st) conf n \<noteq> Some DelAll)"
  using assms
  by (cases "oget (creates st) conf")
    (auto simp: eff_names_def oget2_def [of "creates st"] oget2_def [of "st_values st"] okeys_iff)

lemma set_index_ok:
  assumes wf: "uci_wf st" and dj: "disjoint_new st" and v: "oget (st_values st) conf = Some v"
    and n: "n \<in> set (eff_names conf st)"
  obtains st' where "set_index conf (n, i) st = Ret st'" "same_content conf st st'"
    "\<And>m. index_of st' conf m = (if m = n then i else index_of st conf m)"
proof (cases "oget2 (creates st) conf n")
  case (Some s)
  then have p: "plain_sid n" using wf by (auto simp: uci_wf_def store_wf_def)
  show ?thesis
  proof (rule that)
    show "set_index conf (n, i) st = Ret (st\<lparr>creates := oset2 conf n (s\<lparr>s_index := i\<rparr>) (creates st)\<rparr>)"
      using Some p by (simp add: set_index_def get_section_def)
    show "same_content conf st (st\<lparr>creates := oset2 conf n (s\<lparr>s_index := i\<rparr>) (creates st)\<rparr>)"
      by (rule same_content_creates [OF wf dj Some])
  qed (simp add: index_of_def cong: option.case_cong)
next
  case None
  with n v obtain s where s: "oget2 (st_values st) conf n = Some s" "oget2 (deletes st) conf n \<noteq> Some DelAll"
    by (auto simp: eff_names_iff)
  then have p: "plain_sid n" using wf by (auto simp: uci_wf_def store_wf_def)
  let ?s = "merged_section conf n st s"
  let ?st = "st\<lparr>st_values := oset2 conf n (?s\<lparr>s_index := i\<rparr>) (st_values st)\<rparr>"
  have "oget v n = Some s" using s v by (simp add: oget2_def)
  then have "get_section conf (Some n) st =
      (Some ?s, st\<lparr>st_values := oset conf (oset n ?s v) (st_values st)\<rparr>)"
    using None s v p by (simp add: get_section_def Let_def)
  moreover have "oset2 conf n (?s\<lparr>s_index := i\<rparr>) (oset conf (oset n ?s v) (st_values st)) =
      oset2 conf n (?s\<lparr>s_index := i\<rparr>) (st_values st)"
    using v \<open>oget v n = Some s\<close> by (simp add: oset2_def oset_oset_old)
  ultimately have r: "set_index conf (n, i) st = Ret ?st"
    using None p by (simp add: set_index_def)
  show ?thesis
    by (rule that [OF r same_content_values [OF wf dj s(1)]]) (simp add: index_of_def None cong: option.case_cong)
qed

lemma set_indexes_ok:
  assumes "uci_wf st" "disjoint_new st" "oget (st_values st) conf \<noteq> None" "set ns \<subseteq> set (eff_names conf st)"
    "distinct ns" "length is = length ns"
  shows "\<exists>st'. jfold (set_index conf) (zip ns is) st = Ret st' \<and> same_content conf st st' \<and>
    (\<forall>j < length ns. index_of st' conf (ns ! j) = is ! j) \<and>
    (\<forall>m. m \<notin> set ns \<longrightarrow> index_of st' conf m = index_of st conf m)"
  using assms
proof (induction ns arbitrary: "is" st)
  case Nil
  then show ?case by (simp add: same_content_refl)
next
  case (Cons n ns)
  then obtain k ks where ks: "is = k # ks" "length ks = length ns" by (cases "is") auto
  obtain v where v: "oget (st_values st) conf = Some v" using Cons.prems by auto
  obtain st1 where st1: "set_index conf (n, k) st = Ret st1" "same_content conf st st1"
    "\<And>m. index_of st1 conf m = (if m = n then k else index_of st conf m)"
    using set_index_ok [OF Cons.prems(1,2) v, of n k] Cons.prems(4) by auto
  have "\<exists>st'. jfold (set_index conf) (zip ns ks) st1 = Ret st' \<and> same_content conf st1 st' \<and>
    (\<forall>j < length ns. index_of st' conf (ns ! j) = ks ! j) \<and>
    (\<forall>m. m \<notin> set ns \<longrightarrow> index_of st' conf m = index_of st1 conf m)"
    by (rule Cons.IH) (use st1(2) Cons.prems ks in \<open>auto simp: same_content_def\<close>)
  then obtain st' where st': "jfold (set_index conf) (zip ns ks) st1 = Ret st'" "same_content conf st1 st'"
    "\<And>j. j < length ns \<Longrightarrow> index_of st' conf (ns ! j) = ks ! j"
    "\<And>m. m \<notin> set ns \<Longrightarrow> index_of st' conf m = index_of st1 conf m" by blast
  have "index_of st' conf ((n # ns) ! j) = is ! j" if "j < length (n # ns)" for j
    using that st' st1(3) Cons.prems(5) ks by (cases j) simp_all
  with st' st1 ks show ?case
    by (auto intro: same_content_trans)
qed

lemma take_named_perm: "take_named n ss = Some (x, ys) \<Longrightarrow> s_name x = n \<and> mset ss = add_mset x (mset ys)"
  by (induction ss arbitrary: ys) (auto split: if_splits)

lemma insert_named_perm: "insert_named t after x ss = Some ys \<Longrightarrow> mset ys = add_mset x (mset ss)"
  by (induction ss arbitrary: ys) (auto split: if_splits)

lemma move_orderE:
  assumes "move_order s1 s2 after sa = Some sb"
  obtains n x rest where "s1 = Some n" "take_named n sa = Some (x, rest)"
    "(case s2 of None \<Rightarrow> sb = rest @ [x] | Some t \<Rightarrow> insert_named t after x rest = Some sb)"
proof (cases s1)
  case (Some n)
  with assms obtain x rest where "take_named n sa = Some (x, rest)"
    by (cases "take_named n sa") (auto simp: move_order_def)
  with Some assms that show ?thesis by (cases s2) (simp_all add: move_order_def)
qed (use assms in \<open>simp add: move_order_def\<close>)

lemma move_order_perm:
  assumes "move_order s1 s2 after sa = Some sb"
  shows "mset sb = mset sa"
  using assms
proof (rule move_orderE)
  fix n x rest
  assume "take_named n sa = Some (x, rest)"
    and s2: "case s2 of None \<Rightarrow> sb = rest @ [x] | Some t \<Rightarrow> insert_named t after x rest = Some sb"
  then have "mset sa = add_mset x (mset rest)" by (blast dest: take_named_perm)
  with s2 show ?thesis by (cases s2) (auto dest: insert_named_perm)
qed

text \<open>Where the moved section ends up.\<close>

lemma take_named_names:
  "take_named n ss = Some (x, ys) \<Longrightarrow> distinct (map s_name ss) \<Longrightarrow>
     map s_name ys = filter (\<lambda>m. m \<noteq> n) (map s_name ss)"
proof (induction ss arbitrary: ys)
  case (Cons s ss)
  show ?case
  proof (cases "s_name s = n")
    case True
    with Cons.prems have "ys = ss" "n \<notin> set (map s_name ss)" by auto
    then have "filter (\<lambda>m. m \<noteq> n) (map s_name ss) = map s_name ys" by (metis (mono_tags, lifting) filter_True)
    with True show ?thesis by simp
  next
    case False
    with Cons.prems obtain zs where zs: "take_named n ss = Some (x, zs)" "ys = s # zs" by auto
    with Cons.IH [of zs] Cons.prems(2) False show ?thesis by simp
  qed
qed simp

lemma insert_named_names:
  "insert_named t after x ss = Some ys \<Longrightarrow>
     \<exists>us vs. map s_name ss = us @ t # vs \<and> t \<notin> set us \<and>
       map s_name ys = (if after then us @ t # s_name x # vs else us @ s_name x # t # vs)"
proof (induction ss arbitrary: ys)
  case (Cons s ss)
  show ?case
  proof (cases "s_name s = t")
    case True
    with Cons.prems show ?thesis by (intro exI [of _ "[]"] exI [of _ "map s_name ss"]) auto
  next
    case False
    with Cons.prems obtain zs where zs: "insert_named t after x ss = Some zs" "ys = s # zs" by auto
    then obtain us vs where "map s_name ss = us @ t # vs" "t \<notin> set us"
      "map s_name zs = (if after then us @ t # s_name x # vs else us @ s_name x # t # vs)"
      using Cons.IH by blast
    with False zs show ?thesis by (intro exI [of _ "s_name s # us"] exI [of _ vs]) auto
  qed
qed simp

lemma move_names:
  assumes wf: "uci_wf st" and dj: "disjoint_new st"
    and m: "move_order (resolveSID conf sid1 st) (resolveSID conf sid2 st) after (uci_sections conf None st) = Some sb"
  obtains st' where "uci_move conf sid1 sid2 after st = Ret (True, st')"
    "map s_name (uci_sections conf None st') = map s_name sb"
    "\<And>c i k. plain_sid i \<Longrightarrow> plain_opt k \<Longrightarrow> uci_get c (Some i) k st' = uci_get c (Some i) k st"
    "oget (reorder st') conf = Some True" "uci_wf st'" "disjoint_new st'"
proof -
  obtain v where v: "oget (st_values st) conf = Some v"
    using m by (cases "oget (st_values st) conf") (auto simp: uci_sections_def move_order_def bind_eq_Some_conv
        split: option.splits)
  let ?ns = "map s_name sb"
  have ms: "mset ?ns = mset (eff_names conf st)"
    using sections_name_set [OF wf v] move_order_perm [OF m] by (metis mset_map)
  then have ns: "distinct ?ns" "set ?ns = set (eff_names conf st)"
    using eff_names_distinct [OF wf dj, of conf] by (metis mset_eq_imp_distinct_iff, metis mset_eq_setD)
  obtain st1 where st1: "jfold (set_index conf) (zip ?ns (map int [0..<length sb])) st = Ret st1"
    "same_content conf st st1" "\<And>j. j < length sb \<Longrightarrow> index_of st1 conf (?ns ! j) = int j"
    using set_indexes_ok [OF wf dj, of conf ?ns "map int [0..<length sb]"] v ns by auto
  let ?st = "st1\<lparr>reorder := oset conf True (reorder st1)\<rparr>"
  have r: "uci_move conf sid1 sid2 after st = Ret (True, ?st)"
    using m st1(1) by (simp add: uci_move_def set_indexes_def)
  have "oget (st_values st1) conf \<noteq> None" using st1(2) v by (simp add: same_content_def)
  then obtain w where w: "oget (st_values ?st) conf = Some w" by auto
  have sc: "uci_wf ?st" "disjoint_new ?st" "eff_names conf ?st = eff_names conf st"
    using st1(2) by (simp_all add: same_content_def uci_wf_def pending_wf_def disjoint_new_def eff_names_def
        cong: option.case_cong)
  have "index_of ?st conf (?ns ! j) = int j" if "j < length ?ns" for j
    using st1(3) [of j] that by (simp add: index_of_def cong: option.case_cong)
  then have "map s_name (uci_sections conf None ?st) = ?ns"
    by (intro sections_names [OF sc(1,2) w]) (use ns sc(3) in auto)
  moreover have "uci_get c (Some i) k ?st = uci_get c (Some i) k st" if "plain_sid i" "plain_opt k" for c i k
  proof -
    have "uci_get c (Some i) k ?st = uci_get c (Some i) k st1"
      using that by (simp add: uci_get_eff)
    with that st1(2) show ?thesis by (simp add: same_content_def)
  qed
  ultimately show ?thesis using that r sc by simp
qed

lemma take_named_total: "n \<in> set (map s_name ss) \<Longrightarrow> take_named n ss \<noteq> None"
  by (induction ss) auto

lemma insert_named_total: "t \<in> set (map s_name ss) \<Longrightarrow> insert_named t after x ss \<noteq> None"
  by (induction ss) auto

lemma split_at_unique:
  "us @ t # vs = xs @ t # ys \<Longrightarrow> distinct (xs @ t # ys) \<Longrightarrow> us = xs \<and> vs = ys"
proof (induction us arbitrary: xs)
  case Nil
  then show ?case by (cases xs) auto
next
  case (Cons u us)
  then show ?case by (cases xs) auto
qed

lemma move_order_names:
  assumes d: "distinct (map s_name sa)" and a: "a \<in> set (map s_name sa)"
    and b: "filter (\<lambda>m. m \<noteq> a) (map s_name sa) = xs @ b # ys"
  shows "\<exists>sb. move_order (Some a) (Some b) after sa = Some sb \<and>
    map s_name sb = (if after then xs @ b # a # ys else xs @ a # b # ys)"
proof -
  obtain x rest where x: "take_named a sa = Some (x, rest)"
    using take_named_total [OF a] by auto
  have xn: "s_name x = a" using take_named_perm [OF x] by simp
  have r: "map s_name rest = xs @ b # ys" using take_named_names [OF x d] b by simp
  then have "b \<in> set (map s_name rest)" by simp
  then obtain sb where sb: "insert_named b after x rest = Some sb"
    using insert_named_total by fastforce
  have dr: "distinct (xs @ b # ys)" using d b by (metis distinct_filter)
  from insert_named_names [OF sb] obtain us vs where uv: "map s_name rest = us @ b # vs"
    "map s_name sb = (if after then us @ b # a # vs else us @ a # b # vs)"
    using xn by auto
  with split_at_unique [of us b vs xs ys] r dr have "us = xs" "vs = ys" by simp_all
  with x sb uv show ?thesis by (simp add: move_order_def)
qed

lemma sections_distinct:
  assumes "uci_wf st" "disjoint_new st"
  shows "distinct (map s_name (uci_sections conf None st))"
proof (cases "oget (st_values st) conf")
  case None
  then show ?thesis by (simp add: uci_sections_def)
next
  case (Some v)
  from sections_name_set [OF assms(1) Some] eff_names_distinct [OF assms, of conf]
  show ?thesis by (metis mset_eq_imp_distinct_iff)
qed

section \<open>Extended references\<close>

lemma takeWhile_run: "(\<forall>c \<in> set t. p c) \<Longrightarrow> \<not> p x \<Longrightarrow> takeWhile p (t @ x # u) = t"
  by (induction t) auto

lemma dropWhile_run: "(\<forall>c \<in> set t. p c) \<Longrightarrow> \<not> p x \<Longrightarrow> dropWhile p (t @ x # u) = x # u"
  by (induction t) auto

lemma rmatch_no_sign:
  assumes "c \<noteq> CHR ''-''"
  shows "rmatch (RSeq (RGrp n (RSeq (ROpt (RLit CHR ''-'')) r)) b) (c # s) = rmatch (RSeq (RGrp n r) b) (c # s)"
proof -
  have "rmatch (RSeq (ROpt (RLit CHR ''-'')) r) (c # s) = rmatch r (c # s)"
    using assms by (simp add: ROpt_def RLit_def)
  then show ?thesis by (simp only: rmatch.simps)
qed

lemma exec_extended:
  assumes t: "t \<noteq> []" "\<forall>c \<in> set t. is_word c \<or> c = CHR ''-''" and d: "d \<noteq> []" "\<forall>c \<in> set d. is_digit c"
  shows "exec sid_pattern (''@'' @ t @ ''['' @ d @ '']'') = Some [(1, t), (2, d)]"
proof -
  let ?w = "\<lambda>c. is_word c \<or> c = CHR ''-''"
  have nw: "\<not> ?w CHR ''[''" "\<not> is_digit CHR '']''" "\<not> is_digit CHR ''-''"
    by (simp_all add: is_word_def is_digit_def is_lower_def is_upper_def code_def)
  obtain x d' where x: "d = x # d'" "x \<noteq> CHR ''-''" using d nw(3) by (cases d) auto
  have "rmatch (RSeq (RGrp 2 (RPlus (RChr is_digit))) (RSeq (RChr (\<lambda>c. c = CHR '']'')) REnd)) (d @ '']'') = [([(2, d)], [])]"
    by (subst rmatch_run_char [OF repeats_plus])
      (use d nw in \<open>auto simp: takeWhile_run dropWhile_run Suc_le_eq\<close>)
  then have 2: "rmatch (RSeq (RGrp 2 (RSeq (ROpt (RLit CHR ''-'')) (RPlus (RChr is_digit))))
      (RSeq (RChr (\<lambda>c. c = CHR '']'')) REnd)) (d @ '']'') = [([(2, d)], [])]"
    using rmatch_no_sign [OF x(2)] by (simp add: x(1) del: rmatch.simps)
  have 1: "rmatch (RSeq (RGrp (Suc 0) (RPlus (RChr ?w))) (RSeq (RChr (\<lambda>c. c = CHR ''['')) b)) (t @ CHR ''['' # u) =
      map (\<lambda>(ds, u). ((Suc 0, t) # ds, u)) (rmatch b u)" for b u
    by (subst rmatch_run_char [OF repeats_plus])
      (use t nw in \<open>auto simp: takeWhile_run dropWhile_run Suc_le_eq\<close>)
  have "rmatch sid_pattern (''@'' @ t @ ''['' @ d @ '']'') = [([(1, t), (2, d)], [])]"
    unfolding sid_pattern_def RCat.simps RLit_def [of "CHR ''@''"] RLit_def [of "CHR ''[''"] RLit_def [of "CHR '']''"]
      rmatch.simps(4) [of "RChr (\<lambda>x. x = CHR ''@'')"] rmatch.simps(3)
    by (simp add: 1 2 del: rmatch.simps)
  then show ?thesis by (simp add: exec_def)
qed

lemma int_of_dec_string: "int_of_string (dec_string n) = int n"
proof -
  obtain c t where ct: "dec_string n = c # t" by (cases "dec_string n") auto
  then have "is_digit c" using dec_string_digits [of c n] by simp
  then have "c \<noteq> CHR ''-''" by (auto simp: is_digit_def code_def)
  then show ?thesis
    using radix_round_trip [of 10 n] by (simp add: int_of_string_def ct)
qed

lemma resolve_extended:
  assumes "t \<noteq> []" "\<forall>c \<in> set t. is_word c \<or> c = CHR ''-''"
  shows "resolveSID conf (Some (''@'' @ t @ ''['' @ dec_string n @ '']'')) st =
    (if n < length (uci_sections conf (Some t) st) then Some (s_name (uci_sections conf (Some t) st ! n)) else None)"
proof -
  have "exec sid_pattern (''@'' @ t @ ''['' @ dec_string n @ '']'') = Some [(1, t), (2, dec_string n)]"
    by (rule exec_extended) (use assms dec_string_digits in auto)
  then show ?thesis
    by (simp add: resolveSID_def cap_def int_of_dec_string nth_section_def Let_def)
qed

section \<open>Properties\<close>

text \<open>
  C14.  \<open>sections\<close> of a loaded package returns each section that exists (on the device and not
  deleted, or pending) exactly once, numbers the result 0, 1, 2, ... and orders it by the index stored
  with each section.
\<close>

theorem uci_sections_ordered:
  assumes "uci_wf st" "disjoint_new st" "oget (st_values st) conf = Some v"
  shows "distinct (map s_name (uci_sections conf None st)) \<and>
    set (map s_name (uci_sections conf None st)) = {sid. writable st conf sid} \<and>
    map s_index (uci_sections conf None st) = map int [0..<length (uci_sections conf None st)] \<and>
    sorted (map (index_of st conf) (map s_name (uci_sections conf None st)))"
proof -
  let ?raw = "sort_key s_index (sections_raw conf None st v)"
  have s: "uci_sections conf None st = reindex 0 ?raw" using assms(3) by (simp add: uci_sections_def)
  have "set (map s_name (uci_sections conf None st)) = set (eff_names conf st)"
    by (rule mset_eq_setD) (rule sections_name_set [OF assms(1,3)])
  also have "\<dots> = {sid. writable st conf sid}"
    using eff_names_iff [OF assms(3)] by (auto simp: writable_def)
  finally have 1: "set (map s_name (uci_sections conf None st)) = {sid. writable st conf sid}" .
  have 2: "map s_index (uci_sections conf None st) = map int [0..<length (uci_sections conf None st)]"
    using reindex_indexes [of 0 ?raw] by (simp add: s)
  have "map (index_of st conf) (map s_name (uci_sections conf None st)) = map s_index ?raw"
    unfolding s reindex_names using raw_index [OF assms] by simp
  then have 3: "sorted (map (index_of st conf) (map s_name (uci_sections conf None st)))" by simp
  from sections_distinct [OF assms(1,2)] 1 2 3 show ?thesis by blast
qed

theorem uci_sections_ordered_witness:
  "map s_name (uci_sections ''net'' None sample) = [''lan'', ''wan'', ''new00000a''] \<and>
   distinct (map s_name (uci_sections ''net'' None sample))"
proof -
  obtain v where v: "oget (st_values sample) ''net'' = Some v" by (simp add: sample_def oget_def)
  have "map s_name (uci_sections ''net'' None sample) = [''lan'', ''wan'', ''new00000a'']" by code_simp
  with uci_sections_ordered [OF sample_wf sample_disjoint v] show ?thesis by blast
qed

text \<open>
  C2.  \<open>move\<close> never throws on a well-formed cache: it puts section \<open>a\<close> directly before or after
  section \<open>b\<close>, keeps the other sections in their order, marks the package as reordered, and leaves
  every option of every section as it was.
\<close>

theorem uci_move_places:
  assumes "uci_wf st" "disjoint_new st" "plain_sid a" "plain_sid b"
    "a \<in> set (map s_name (uci_sections conf None st))"
    "filter (\<lambda>m. m \<noteq> a) (map s_name (uci_sections conf None st)) = xs @ b # ys"
  shows "\<exists>st'. uci_move conf (Some a) (Some b) after st = Ret (True, st') \<and>
    map s_name (uci_sections conf None st') = (if after then xs @ b # a # ys else xs @ a # b # ys) \<and>
    oget (reorder st') conf = Some True \<and> uci_wf st' \<and> disjoint_new st' \<and>
    (\<forall>c i k. plain_sid i \<longrightarrow> plain_opt k \<longrightarrow> uci_get c (Some i) k st' = uci_get c (Some i) k st)"
proof -
  obtain sb where sb: "move_order (Some a) (Some b) after (uci_sections conf None st) = Some sb"
    "map s_name sb = (if after then xs @ b # a # ys else xs @ a # b # ys)"
    using move_order_names [OF sections_distinct [OF assms(1,2)] assms(5,6)] by blast
  have m: "move_order (resolveSID conf (Some a) st) (resolveSID conf (Some b) st) after
      (uci_sections conf None st) = Some sb"
    using sb(1) assms(3,4) by simp
  show ?thesis
    by (rule move_names [OF assms(1,2) m]) (use sb(2) in metis)
qed

theorem uci_move_places_witness:
  "\<exists>st'. uci_move ''net'' (Some ''wan'') (Some ''lan'') False sample = Ret (True, st') \<and>
     map s_name (uci_sections ''net'' None st') = [''wan'', ''lan'', ''new00000a'']"
proof -
  have "map s_name (uci_sections ''net'' None sample) = [''lan'', ''wan'', ''new00000a'']" by code_simp
  then show ?thesis
    using uci_move_places [OF sample_wf sample_disjoint plain_literals(2,1), of "''net''" "[]" "[''new00000a'']" False]
    by auto
qed

text \<open>
  An extended reference \<open>@type[n]\<close> that resolves to no section as the second argument makes
  \<open>move\<close> put the section at the end of the package and report success, where the documentation
  says that the call fails when the second section is not found.
\<close>

theorem uci_move_unresolved_goes_last:
  assumes "uci_wf st" "disjoint_new st" "plain_sid a" "resolveSID conf (Some b) st = None"
    "a \<in> set (map s_name (uci_sections conf None st))"
  shows "\<exists>st'. uci_move conf (Some a) (Some b) after st = Ret (True, st') \<and>
    map s_name (uci_sections conf None st') = filter (\<lambda>m. m \<noteq> a) (map s_name (uci_sections conf None st)) @ [a]"
proof -
  let ?sa = "uci_sections conf None st"
  obtain x rest where x: "take_named a ?sa = Some (x, rest)"
    using take_named_total [OF assms(5)] by auto
  then have m: "move_order (resolveSID conf (Some a) st) (resolveSID conf (Some b) st) after ?sa = Some (rest @ [x])"
    using assms(3,4) by (simp add: move_order_def)
  have "map s_name (rest @ [x]) = filter (\<lambda>m. m \<noteq> a) (map s_name ?sa) @ [a]"
    using take_named_perm [OF x] take_named_names [OF x sections_distinct [OF assms(1,2)]] by simp
  with move_names [OF assms(1,2) m] show ?thesis by metis
qed

theorem uci_move_unresolved_goes_last_witness:
  "resolveSID ''net'' (Some ''@iface[7]'') sample = None \<and>
   (\<exists>st'. uci_move ''net'' (Some ''lan'') (Some ''@iface[7]'') False sample = Ret (True, st') \<and>
     map s_name (uci_sections ''net'' None st') = [''wan'', ''new00000a'', ''lan''])"
proof -
  have "map s_name (uci_sections ''net'' None sample) = [''lan'', ''wan'', ''new00000a'']" by code_simp
  moreover have r: "resolveSID ''net'' (Some ''@iface[7]'') sample = None"
  proof -
    have "length (uci_sections ''net'' (Some ''iface'') sample) = 2" by code_simp
    moreover have "dec_string 7 = ''7''" by code_simp
    ultimately show ?thesis
      using resolve_extended [of "''iface''" "''net''" 7 sample]
      by (simp add: is_word_def is_lower_def code_def)
  qed
  ultimately show ?thesis
    using uci_move_unresolved_goes_last [OF sample_wf sample_disjoint plain_literals(1) r, of False] by auto
qed

text \<open>
  C28.  An extended reference \<open>@type[n]\<close> resolves to the \<open>n\<close>-th section of that type in section
  order when there is one, and to nothing otherwise.
\<close>

theorem resolveSID_extended:
  assumes "t \<noteq> []" "\<forall>c \<in> set t. is_word c \<or> c = CHR ''-''"
  shows "resolveSID conf (Some (''@'' @ t @ ''['' @ dec_string n @ '']'')) st =
    (if n < length (uci_sections conf (Some t) st) then Some (s_name (uci_sections conf (Some t) st ! n)) else None)"
  using assms by (rule resolve_extended)

theorem resolveSID_extended_witness:
  "resolveSID ''net'' (Some (''@'' @ ''iface'' @ ''['' @ dec_string 1 @ '']'')) sample = Some ''wan''"
proof -
  have "map s_name (uci_sections ''net'' (Some ''iface'') sample) = [''lan'', ''wan'']" by code_simp
  then have "length (uci_sections ''net'' (Some ''iface'') sample) = 2"
    "s_name (uci_sections ''net'' (Some ''iface'') sample ! 1) = ''wan''"
    by (auto simp: map_eq_Cons_conv)
  then show ?thesis
    using resolveSID_extended [of "''iface''" "''net''" 1 sample]
    by (simp add: is_word_def is_lower_def code_def)
qed

end
