(* ===== verification/UciSync.thy ===== *)
theory UciSync
  imports UciLaws
begin

text \<open>
  The cache against the device: what \<open>save\<close> sends and the state it leaves, loading and unloading
  of packages, the confirmation loop of \<open>apply\<close>, and the places where the pending state and
  the device part ways.
\<close>

section \<open>Loading after unloading\<close>

lemma unload_fields:
  "oget (st_values (uci_unload ps st)) c = (if c \<in> set ps then None else oget (st_values st) c)"
  "oget (creates (uci_unload ps st)) c = (if c \<in> set ps then None else oget (creates st) c)"
  "oget (changes (uci_unload ps st)) c = (if c \<in> set ps then None else oget (changes st) c)"
  "oget (deletes (uci_unload ps st)) c = (if c \<in> set ps then None else oget (deletes st) c)"
  "oget (loaded (uci_unload ps st)) c = (if c \<in> set ps then None else oget (loaded st) c)"
  "reorder (uci_unload ps st) = reorder st"
  unfolding uci_unload_def by (induction ps arbitrary: st) (simp_all add: unload_one_def)

text \<open>The part of the state that loading leaves alone.\<close>

definition same_pending :: "uci \<Rightarrow> uci \<Rightarrow> bool" where
  "same_pending a b \<longleftrightarrow> creates a = creates b \<and> changes a = changes b \<and> deletes a = deletes b \<and> reorder a = reorder b"

lemma load_requests_fresh:
  assumes "\<And>p. p \<in> set ps \<Longrightarrow> oget (st_values st) p = None \<and>
      (oget (loaded st) p = None \<or> oget (loaded st) p = Some (fetch p))"
  shows "fst (load_requests fetch ps st) = map (\<lambda>p. (p, fetch p)) ps \<and>
    same_pending (snd (load_requests fetch ps st)) st \<and>
    st_values (snd (load_requests fetch ps st)) = st_values st"
  using assms
proof (induction ps arbitrary: st)
  case Nil
  then show ?case by (simp add: same_pending_def)
next
  case (Cons p ps)
  define st1 where "st1 = snd (loadPackage fetch p st)"
  have l: "loadPackage fetch p st = (fetch p, st1)"
    using Cons.prems [of p] by (auto simp: loadPackage_def st1_def)
  have st1: "st_values st1 = st_values st" "same_pending st1 st"
    "\<And>q. oget (loaded st1) q = oget (loaded st) q \<or> oget (loaded st1) q = Some (fetch q)"
    by (auto simp: st1_def loadPackage_def same_pending_def split: option.split)
  have "fst (load_requests fetch ps st1) = map (\<lambda>p. (p, fetch p)) ps \<and>
    same_pending (snd (load_requests fetch ps st1)) st1 \<and>
    st_values (snd (load_requests fetch ps st1)) = st_values st1"
  proof (rule Cons.IH)
    fix q assume "q \<in> set ps"
    then show "oget (st_values st1) q = None \<and> (oget (loaded st1) q = None \<or> oget (loaded st1) q = Some (fetch q))"
      using Cons.prems [of q] st1(1) st1(3) [of q] by auto
  qed
  with st1 l Cons.prems [of p] show ?case
    by (auto simp: split_beta Let_def same_pending_def)
qed

lemma store_packages:
  assumes "\<And>p. p \<in> set ps \<Longrightarrow> fetch p \<noteq> None"
  shows "oget (st_values (fold store_package (map (\<lambda>p. (p, fetch p)) ps) st)) c =
      (if c \<in> set ps then fetch c else oget (st_values st) c) \<and>
    same_pending (fold store_package (map (\<lambda>p. (p, fetch p)) ps) st) st"
  using assms
proof (induction ps arbitrary: st)
  case (Cons p ps)
  then have "fetch p \<noteq> None" by simp
  then obtain v where v: "fetch p = Some v" by blast
  with Cons.IH [of "store_package (p, Some v) st"] Cons.prems show ?case
    by (auto simp: store_package_def same_pending_def)
qed (simp add: same_pending_def)

lemma load_fresh:
  assumes "\<And>p. p \<in> set ps \<Longrightarrow> oget (st_values st) p = None \<and> oget (loaded st) p = None"
    and f: "\<And>p. p \<in> set ps \<Longrightarrow> fetch p \<noteq> None"
  obtains st' where "uci_load fetch ps st = (Ret ps, st')" "same_pending st' st"
    "\<And>c. oget (st_values st') c = (if c \<in> set ps then fetch c else oget (st_values st) c)"
proof -
  obtain rs st1 where l: "load_requests fetch ps st = (rs, st1)" by (cases "load_requests fetch ps st")
  have r: "rs = map (\<lambda>p. (p, fetch p)) ps" "same_pending st1 st" "st_values st1 = st_values st"
    using load_requests_fresh [of ps st fetch] assms(1) by (auto simp: l)
  let ?st = "fold store_package rs st1"
  have "uci_load fetch ps st = (Ret ps, ?st)"
    using f r(1) by (auto simp: uci_load_def l comp_def)
  moreover have "oget (st_values ?st) c = (if c \<in> set ps then fetch c else oget (st_values st) c)" "same_pending ?st st1" for c
    using store_packages [of ps fetch st1 c] f r by auto
  ultimately show ?thesis using that r(2) by (auto simp: same_pending_def)
qed

section \<open>What \<open>save\<close> sends and leaves\<close>

lemma assign_name_keys:
  "okeys (creates (assign_name x st)) = okeys (creates st)"
  "reorder (assign_name x st) = reorder st" "changes (assign_name x st) = changes st"
  "deletes (assign_name x st) = deletes st" "st_values (assign_name x st) = st_values st"
  by (auto simp: assign_name_def oset2_def oget2_def bind_eq_Some_conv okeys_oset_old split: option.split)

lemma assign_names_keys:
  "okeys (creates (assign_names rs st)) = okeys (creates st)"
  "reorder (assign_names rs st) = reorder st" "changes (assign_names rs st) = changes st"
  "deletes (assign_names rs st) = deletes st" "st_values (assign_names rs st) = st_values st"
proof -
  have "okeys (creates (fold assign_name xs s)) = okeys (creates s) \<and> reorder (fold assign_name xs s) = reorder s \<and>
    changes (fold assign_name xs s) = changes s \<and> deletes (fold assign_name xs s) = deletes s \<and>
    st_values (fold assign_name xs s) = st_values s" for xs s
    by (induction xs arbitrary: s) (simp_all add: assign_name_keys)
  then show "okeys (creates (assign_names rs st)) = okeys (creates st)"
    "reorder (assign_names rs st) = reorder st" "changes (assign_names rs st) = changes st"
    "deletes (assign_names rs st) = deletes st" "st_values (assign_names rs st) = st_values st"
    by (simp_all add: assign_names_def)
qed

lemma set_fold_oset: "set (okeys (fold (\<lambda>k. oset k v) ks m)) = set ks \<union> set (okeys m)"
  by (induction ks arbitrary: m) (auto simp: okeys_oset)

lemma set_save_pkgs:
  "set (save_pkgs st) = set (okeys (deletes st)) \<union> set (okeys (creates st)) \<union> set (okeys (changes st)) \<union> set (okeys (reorder st))"
  unfolding save_pkgs_def by (auto simp: set_fold_oset) (simp add: okeys_def)

lemma save_result:
  assumes "\<And>p. p \<in> set (save_pkgs st) \<Longrightarrow> fetch p \<noteq> None"
  obtains st' order where "uci_save fetch (Some rs) True st = (Ret (save_pkgs st), save_tasks st @ order, st')"
    "\<And>c. oget (st_values st') c = (if c \<in> set (save_pkgs st) then fetch c else oget (st_values st) c)"
    "\<And>c. oget (creates st') c = None" "\<And>c. oget (changes st') c = None" "\<And>c. oget (deletes st') c = None"
    "reorder st' = []"
proof -
  obtain order st2 where r: "reorderSections (assign_names rs st) = (order, st2)"
    by (cases "reorderSections (assign_names rs st)")
  then have st2: "st2 = (assign_names rs st)\<lparr>reorder := []\<rparr>" by (simp add: reorderSections_def)
  let ?u = "uci_unload (save_pkgs st) st2"
  obtain st' where l: "uci_load fetch (save_pkgs st) ?u = (Ret (save_pkgs st), st')" "same_pending st' ?u"
    "\<And>c. oget (st_values st') c = (if c \<in> set (save_pkgs st) then fetch c else oget (st_values ?u) c)"
    using load_fresh [of "save_pkgs st" ?u fetch] assms by (auto simp: unload_fields)
  have k: "okeys (creates st2) = okeys (creates st)" by (simp add: st2 assign_names_keys)
  have s: "uci_save fetch (Some rs) True st = (Ret (save_pkgs st), save_tasks st @ order, st')"
    using r l(1) by (simp add: uci_save_def)
  have v: "oget (st_values st') c = (if c \<in> set (save_pkgs st) then fetch c else oget (st_values st) c)" for c
    by (simp add: l(3) unload_fields st2 assign_names_keys)
  have "oget (creates st') c = None \<and> oget (changes st') c = None \<and> oget (deletes st') c = None" for c
    using l(2) k set_save_pkgs [of st]
    by (auto simp: same_pending_def unload_fields oget_None st2 assign_names_keys)
  moreover have "reorder st' = []" using l(2) by (simp add: same_pending_def unload_fields st2)
  ultimately show ?thesis using that s v by blast
qed

lemma in_nested:
  assumes "owf2 m"
  shows "(\<exists>i. (a, i) \<in> set m \<and> (b, x) \<in> set i) \<longleftrightarrow> oget2 m a b = Some x"
proof -
  have "owf m" "\<And>i. oget m a = Some i \<Longrightarrow> owf i" using assms by (auto simp: owf2_def)
  then show ?thesis
    by (auto simp: oget2_def bind_eq_Some_conv oget_Some [symmetric])
qed

lemma sent_delete:
  assumes "owf2 (deletes st)"
  shows "CallDelete conf sid ks \<in> set (save_tasks st) \<longleftrightarrow>
    (\<exists>d. oget2 (deletes st) conf sid = Some d \<and> ks = (case d of DelAll \<Rightarrow> None | DelOpts m \<Rightarrow> Some (okeys m)))"
proof -
  have "CallDelete conf sid ks \<in> set (save_tasks st) \<longleftrightarrow>
    (\<exists>d. (\<exists>i. (conf, i) \<in> set (deletes st) \<and> (sid, d) \<in> set i) \<and>
       ks = (case d of DelAll \<Rightarrow> None | DelOpts m \<Rightarrow> Some (okeys m)))"
    by (fastforce simp: save_tasks_def delete_tasks_def add_tasks_def set_tasks_def)
  then show ?thesis by (simp add: in_nested [OF assms])
qed

lemma sent_set:
  assumes "owf2 (changes st)"
  shows "CallSet conf sid c \<in> set (save_tasks st) \<longleftrightarrow> oget2 (changes st) conf sid = Some c"
proof -
  have "CallSet conf sid c \<in> set (save_tasks st) \<longleftrightarrow> (\<exists>i. (conf, i) \<in> set (changes st) \<and> (sid, c) \<in> set i)"
    by (fastforce simp: save_tasks_def delete_tasks_def add_tasks_def set_tasks_def)
  then show ?thesis by (simp add: in_nested [OF assms])
qed

lemma snew_distinct:
  assumes "owf2 (creates st)"
  shows "distinct (snew st)"
proof -
  have i: "owf i" if "(a, i) \<in> set (creates st)" for a i
    using that assms by (metis oget_Some owf2_def)
  have "distinct (concat (map (\<lambda>(conf, m). map (\<lambda>(sid, _). (conf, sid)) m) cs))"
    if "distinct (map fst cs)" "\<And>a i. (a, i) \<in> set cs \<Longrightarrow> owf i" for cs :: "uci_section jsobj jsobj"
    using that
  proof (induction cs)
    case (Cons c cs)
    obtain a m where c: "c = (a, m)" by (cases c)
    have "distinct (map fst m)" using Cons.prems(2) [of a m] by (simp add: c owf_def)
    then have "distinct (map (\<lambda>(sid, _). (a, sid)) m)"
      by (auto simp: distinct_map inj_on_def split_beta)
    moreover have "fst x \<in> fst ` set cs"
      if "x \<in> set (concat (map (\<lambda>(conf, m). map (\<lambda>(sid, _). (conf, sid)) m) cs))" for x
      using that by force
    then have "set (map (\<lambda>(sid, _). (a, sid)) m) \<inter>
        set (concat (map (\<lambda>(conf, m). map (\<lambda>(sid, _). (conf, sid)) m) cs)) = {}"
      using Cons.prems(1) c by fastforce
    moreover have "distinct (concat (map (\<lambda>(conf, m). map (\<lambda>(sid, _). (conf, sid)) m) cs))"
      by (rule Cons.IH) (use Cons.prems in auto)
    ultimately show ?case by (simp only: c list.map concat.simps prod.case distinct_append)
  qed simp
  with i assms show ?thesis by (simp add: snew_def owf2_def owf_def)
qed

lemma assign_name_other: "y \<noteq> fst x \<Longrightarrow>
  oget2 (creates (assign_name x st)) (fst y) (snd y) = oget2 (creates st) (fst y) (snd y)"
  by (auto simp: assign_name_def prod_eq_iff split: option.split)

lemma fold_assign_other: "y \<notin> fst ` set xs \<Longrightarrow>
  oget2 (creates (fold assign_name xs st)) (fst y) (snd y) = oget2 (creates st) (fst y) (snd y)"
  by (induction xs arbitrary: st) (auto simp: assign_name_other)

lemma fold_assign_at:
  assumes "distinct ys" "i < length ys" "length ys \<le> length rs"
    "oget2 (creates st) (fst (ys ! i)) (snd (ys ! i)) = Some s"
  shows "oget2 (creates (fold assign_name (zip ys rs) st)) (fst (ys ! i)) (snd (ys ! i)) = Some (s\<lparr>s_name := rs ! i\<rparr>)"
  using assms
proof (induction ys arbitrary: rs i st)
  case (Cons y ys)
  then obtain r rs' where rs: "rs = r # rs'" by (cases rs) auto
  show ?case
  proof (cases i)
    case 0
    have n: "y \<notin> fst ` set (zip ys rs')" using Cons.prems(1) by (auto dest: set_zip_leftD)
    show ?thesis
      using fold_assign_other [OF n, of "assign_name (y, r) st"] Cons.prems(4)
      by (simp add: rs 0 assign_name_def [of "(y, r)"])
  next
    case (Suc j)
    have "ys ! j \<noteq> y" using Cons.prems(1,2) Suc by auto
    then have "oget2 (creates (assign_name (y, r) st)) (fst (ys ! j)) (snd (ys ! j)) = Some s"
      using Cons.prems(4) Suc by (simp add: assign_name_other)
    with Cons Suc show ?thesis by (simp add: rs)
  qed
qed simp

lemma snew_in:
  assumes "owf2 (creates st)" "i < length (snew st)"
  shows "\<exists>s. oget2 (creates st) (fst (snew st ! i)) (snd (snew st ! i)) = Some s"
proof -
  have "snew st ! i \<in> set (snew st)" using assms(2) by simp
  then obtain a m b s where "(a, m) \<in> set (creates st)" "(b, s) \<in> set m" "snew st ! i = (a, b)"
    unfolding snew_def by auto
  then show ?thesis using in_nested [OF assms(1), of a b s] by auto
qed

lemma add_tasks_nth:
  assumes "i < length (snew st)"
  shows "length (add_tasks st) = length (snew st) \<and>
    (\<exists>t n os. add_tasks st ! i = CallAdd (fst (snew st ! i)) t n os)"
proof -
  have "list_all2 (\<lambda>x y. \<exists>t n os. y = CallAdd (fst x) t n os)
     (concat (map (\<lambda>(conf, m). map (\<lambda>(sid, _). (conf, sid)) m) cs))
     (concat (map (\<lambda>(conf, m). map (\<lambda>(sid, s). CallAdd conf (s_type s) (s_create s)
       (filter (\<lambda>(k, _). take 1 k \<noteq> ''.'') (s_opts s))) m) cs))" for cs :: "uci_section jsobj jsobj"
  proof (induction cs)
    case (Cons c cs)
    obtain a m where c: "c = (a, m)" by (cases c)
    have "list_all2 (\<lambda>x y. \<exists>t n os. y = CallAdd (fst x) t n os) (map (\<lambda>(sid, _). (a, sid)) m)
      (map (\<lambda>(sid, s). CallAdd a (s_type s) (s_create s) (filter (\<lambda>(k, _). take 1 k \<noteq> ''.'') (s_opts s))) m)"
      by (simp add: list.rel_map list_all2_same split_beta)
    with Cons c show ?case by (simp add: list_all2_appendI)
  qed simp
  then have "list_all2 (\<lambda>x y. \<exists>t n os. y = CallAdd (fst x) t n os) (snew st) (add_tasks st)"
    by (simp add: snew_def add_tasks_def)
  with assms show ?thesis by (simp add: list_all2_conv_all_nth)
qed

section \<open>Properties\<close>

text \<open>
  C5.  A \<open>save\<close> whose calls succeed and whose packages load again resolves to the touched packages;
  afterwards nothing is pending and each touched package holds what the device returned.
\<close>

theorem uci_save_commits:
  assumes "\<forall>p \<in> set (save_pkgs st). fetch p \<noteq> None"
  shows "\<exists>order st'. uci_save fetch (Some rs) True st = (Ret (save_pkgs st), save_tasks st @ order, st') \<and>
    (\<forall>c. oget (creates st') c = None \<and> oget (changes st') c = None \<and> oget (deletes st') c = None) \<and>
    reorder st' = [] \<and>
    (\<forall>c. oget (st_values st') c = (if c \<in> set (save_pkgs st) then fetch c else oget (st_values st) c))"
  by (rule save_result [of st fetch rs]) (use assms in auto)

theorem uci_save_commits_witness:
  "\<exists>order st'. uci_save (\<lambda>p. Some []) (Some [''0'', ''cfg1'', ''0'']) True sample = (Ret (save_pkgs sample), save_tasks sample @ order, st')"
  using uci_save_commits [of sample "\<lambda>p. Some []" "[''0'', ''cfg1'', ''0'']"] by auto



text \<open>
  C36.  \<open>save\<close> names the \<open>i\<close>-th created section after the \<open>i\<close>-th reply of all calls, although the
  reply to its own \<open>add\<close> call comes after the replies to the \<open>delete\<close> calls: with anything
  deleted, new sections get the replies of other calls as names.
\<close>

theorem uci_save_names_shifted:
  assumes "uci_wf st" "i < length (snew st)" "length rs = length (save_tasks st)"
  shows "map_option s_name (oget2 (creates (assign_names rs st)) (fst (snew st ! i)) (snd (snew st ! i))) = Some (rs ! i) \<and>
    (\<exists>t n os. save_tasks st ! (length (delete_tasks st) + i) = CallAdd (fst (snew st ! i)) t n os)"
proof -
  have w: "owf2 (creates st)" using assms(1) by (simp add: uci_wf_def store_wf_def)
  obtain s where s: "oget2 (creates st) (fst (snew st ! i)) (snd (snew st ! i)) = Some s"
    using snew_in [OF w assms(2)] by blast
  have a: "length (add_tasks st) = length (snew st)"
    "\<exists>t n os. add_tasks st ! i = CallAdd (fst (snew st ! i)) t n os"
    using add_tasks_nth [OF assms(2)] by blast+
  have "length (snew st) \<le> length rs" using a(1) assms(3) by (simp add: save_tasks_def)
  from fold_assign_at [OF snew_distinct [OF w] assms(2) this s] a(2) assms(2) a(1) show ?thesis
    by (simp add: assign_names_def save_tasks_def nth_append)
qed

theorem uci_save_names_shifted_witness:
  "map_option s_name (oget2 (creates (assign_names [''0'', ''cfg1'', ''0''] sample)) ''net'' ''new00000a'') = Some ''0'' \<and>
   save_tasks sample ! 1 = CallAdd ''net'' ''route'' None []"
proof -
  have n: "snew sample = [(''net'', ''new00000a'')]" by (simp add: snew_def sample_def)
  have d: "length (save_tasks sample) = 3"
    by (simp add: save_tasks_def delete_tasks_def add_tasks_def set_tasks_def sample_def)
  have "save_tasks sample ! 1 = CallAdd ''net'' ''route'' None []"
    by (simp add: save_tasks_def delete_tasks_def add_tasks_def set_tasks_def sample_def sample_section_def)
  then show ?thesis
    using uci_save_names_shifted [OF sample_wf, of 0 "[''0'', ''cfg1'', ''0'']"] n d by simp
qed


text \<open>
  A package whose load failed once keeps failing, even when the device would now answer: the
  rejected request is cached.  Unloading the package makes it loadable again.
\<close>

theorem uci_load_failure_cached:
  assumes "oget (st_values st) p = None" "oget (loaded st) p = None" "fetch p = None" "fetch' p = Some v"
  shows "fst (uci_load fetch [p] st) = Throw ''RPCError'' \<and>
    fst (uci_load fetch' [p] (snd (uci_load fetch [p] st))) = Throw ''RPCError'' \<and>
    fst (uci_load fetch' [p] (uci_unload [p] (snd (uci_load fetch [p] st)))) = Ret [p]"
  using assms by (simp add: uci_load_def loadPackage_def uci_unload_def unload_one_def)

theorem uci_load_failure_cached_witness:
  "fst (uci_load (\<lambda>p. Some []) [''dhcp''] (snd (uci_load (\<lambda>p. None) [''dhcp''] sample))) = Throw ''RPCError''"
  using uci_load_failure_cached [of sample "''dhcp''" "\<lambda>p. None" "\<lambda>p. Some []" "[]"]
  by (simp add: sample_def oget_def)

text \<open>
  C35.  Reading a section between writes can lose a deletion: after \<open>unset\<close>, \<open>get\<close> of the section,
  \<open>set\<close> and \<open>unset\<close> again, the option reads as removed but no deletion is pending, so \<open>save\<close> leaves
  it on the device.
\<close>

theorem uci_unset_lost:
  assumes "uci_wf st" "plain_sid sid" "plain_opt opt" "oget2 (creates st) conf sid = None"
    "oget2 (st_values st) conf sid = Some s" "oget (s_opts s) opt = Some old"
    "oget2 (changes st) conf sid = None" "oget2 (deletes st) conf sid = None" "v \<noteq> UStr []"
    "st1 = snd (get_section conf (Some sid) (uci_unset conf (Some sid) (Some opt) st))"
    "st2 = uci_unset conf (Some sid) (Some opt) (uci_set conf (Some sid) (Some opt) (Some v) st1)"
  shows "uci_get conf (Some sid) opt st2 = None \<and>
    oget2 (deletes st2) conf sid = None \<and> oget2 (changes st2) conf sid = None"
proof -
  let ?st0 = "uci_unset conf (Some sid) (Some opt) st"
  have wf0: "uci_wf ?st0" using assms(1) by (simp add: uci_unset_def uci_set_wf)
  have 0: "oget2 (creates ?st0) conf sid = None" "oget2 (st_values ?st0) conf sid = Some s"
    "oget2 (changes ?st0) conf sid = None" "oget2 (deletes ?st0) conf sid = Some (DelOpts (oset opt True []))"
    using assms(2-8) by (simp_all add: uci_unset_def uci_set_plain stored_def set_deleted_def Let_def
        oget2_revert_change oget2_mark_deleted)
  have 1: "oget2 (creates st1) conf sid = None" "oget2 (changes st1) conf sid = None"
    "oget2 (deletes st1) conf sid = Some (DelOpts (oset opt True []))"
    "oget2 (st_values st1) conf sid = Some (merged_section conf sid ?st0 s)"
  proof -
    obtain w where "oget (st_values ?st0) conf = Some w" "oget w sid = Some s"
      using 0(2) by (auto simp: oget2_def bind_eq_Some_conv)
    then have "st1 = ?st0\<lparr>st_values := oset2 conf sid (merged_section conf sid ?st0 s) (st_values ?st0)\<rparr>"
      using 0 assms(2,10) by (simp add: get_section_def Let_def oset2_def)
    then show "oget2 (creates st1) conf sid = None" "oget2 (changes st1) conf sid = None"
      "oget2 (deletes st1) conf sid = Some (DelOpts (oset opt True []))"
      "oget2 (st_values st1) conf sid = Some (merged_section conf sid ?st0 s)"
      using 0 by simp_all
  qed
  have m: "oget (s_opts (merged_section conf sid ?st0 s)) opt = None"
    using oget_merged [OF wf0, of conf sid s opt] 0 by auto
  let ?st2 = "uci_set conf (Some sid) (Some opt) (Some v) st1"
  have 2: "oget2 (creates ?st2) conf sid = None" "oget2 (deletes ?st2) conf sid = None"
    "oget2 (changes ?st2) conf sid = Some (oset opt v [])"
    "oget2 (st_values ?st2) conf sid = Some (merged_section conf sid ?st0 s)"
    using 1 assms(2,3,9) by (simp_all add: uci_set_plain stored_def set_changed_def oget2_undelete isEmpty_iff)
  have 3: "oget2 (creates st2) conf sid = None" "oget2 (deletes st2) conf sid = None" "oget2 (changes st2) conf sid = None"
    "oget2 (st_values st2) conf sid = Some (merged_section conf sid ?st0 s)"
    using 2 m assms(2,3,11) by (simp_all add: uci_unset_def uci_set_plain stored_def set_deleted_def Let_def
        oget2_revert_change isEmpty_iff)
  with m assms(2,3) show ?thesis by (simp add: uci_get_eff eff_def sec_prop_plain)
qed

theorem uci_unset_lost_witness:
  "uci_get ''net'' (Some ''wan'') ''proto''
     (uci_unset ''net'' (Some ''wan'') (Some ''proto'') (uci_set ''net'' (Some ''wan'') (Some ''proto'') (Some (UStr ''pppoe''))
        (snd (get_section ''net'' (Some ''wan'') (uci_unset ''net'' (Some ''wan'') (Some ''proto'') sample))))) = None"
  using uci_unset_lost [OF sample_wf plain_literals(2,4), of "''net''" _ _ "UStr ''pppoe''"]
  by (simp add: sample_lookups sample_section_def oget_def)

end
