(* ===== verification/JsNumber.thy ===== *)
theory JsNumber
  imports Prelude
begin

text \<open>
  JavaScript numbers as the components use them.  A number is \<open>NaN\<close>, an infinity or an exact
  rational: the components compute with integers below \<open>2^53\<close> and with short decimal literals, where the
  rounding of doubles plays no part; it is not modelled.  Besides the type the theory holds the
  conversions \<open>Number(s)\<close>, \<open>parseFloat(s)\<close>, \<open>parseInt(s, radix)\<close> and the 32-bit
  conversions behind the bitwise operators.
\<close>

datatype jsnum = NaN | Inf bool | Fin rat

text \<open>\<open>Inf True\<close> is minus infinity.\<close>

fun num_neg :: "jsnum \<Rightarrow> jsnum" where
  "num_neg NaN = NaN"
| "num_neg (Inf b) = Inf (\<not> b)"
| "num_neg (Fin q) = Fin (- q)"

fun num_le :: "jsnum \<Rightarrow> jsnum \<Rightarrow> bool" where
  "num_le NaN _ = False"
| "num_le _ NaN = False"
| "num_le (Inf True) _ = True"
| "num_le _ (Inf False) = True"
| "num_le (Fin a) (Fin b) = (a \<le> b)"
| "num_le _ _ = False"

fun num_less :: "jsnum \<Rightarrow> jsnum \<Rightarrow> bool" where
  "num_less NaN _ = False"
| "num_less _ NaN = False"
| "num_less (Inf a) (Inf b) = (a \<and> \<not> b)"
| "num_less (Inf a) (Fin _) = a"
| "num_less (Fin _) (Inf b) = (\<not> b)"
| "num_less (Fin a) (Fin b) = (a < b)"

text \<open>\<open>x == y\<close> on numbers.\<close>

definition num_eq :: "jsnum \<Rightarrow> jsnum \<Rightarrow> bool" where
  "num_eq x y \<longleftrightarrow> x = y \<and> x \<noteq> NaN"

text \<open>\<open>+param || 0\<close>\<close>

definition or_zero :: "jsnum \<Rightarrow> jsnum" where
  "or_zero x = (if x = NaN then Fin 0 else x)"

section \<open>Decimal literals\<close>

text \<open>An exponent part, taken only when it is complete.\<close>

definition scan_exp :: "string \<Rightarrow> int \<times> string" where
  "scan_exp s =
     (case s of
        [] \<Rightarrow> (0, s)
      | c # t \<Rightarrow>
          if c = CHR ''e'' \<or> c = CHR ''E'' then
            let neg = (case t of x # _ \<Rightarrow> x = CHR ''-'' | [] \<Rightarrow> False);
                u = (case t of x # v \<Rightarrow> if x = CHR ''-'' \<or> x = CHR ''+'' then v else t | [] \<Rightarrow> t);
                ds = takeWhile is_digit u
            in if ds = [] then (0, s)
               else (if neg then - int (nat_of_radix 10 ds) else int (nat_of_radix 10 ds), dropWhile is_digit u)
          else (0, s))"

definition scale10 :: "rat \<Rightarrow> int \<Rightarrow> rat" where
  "scale10 q e = (if 0 \<le> e then q * 10 ^ nat e else q / 10 ^ nat (- e))"

text \<open>The longest unsigned decimal literal at the start of the string, and what follows it.\<close>

definition scan_decimal :: "string \<Rightarrow> (rat \<times> string) option" where
  "scan_decimal s =
     (let i = takeWhile is_digit s;
          r = dropWhile is_digit s;
          (f, r2) = (case r of
             c # t \<Rightarrow> if c = CHR ''.'' then (takeWhile is_digit t, dropWhile is_digit t) else ([], r)
           | [] \<Rightarrow> ([], r))
      in if i = [] \<and> f = [] then None
         else (let (e, r3) = scan_exp r2
               in Some (scale10 (of_nat (nat_of_radix 10 (i @ f))) (e - int (length f)), r3)))"

definition with_sign :: "(string \<Rightarrow> jsnum) \<Rightarrow> string \<Rightarrow> jsnum" where
  "with_sign f s =
     (case s of
        c # t \<Rightarrow> if c = CHR ''-'' then num_neg (f t) else if c = CHR ''+'' then f t else f s
      | [] \<Rightarrow> f s)"

section \<open>Conversions from strings\<close>

definition number_literal :: "string \<Rightarrow> jsnum" where
  "number_literal s =
     (if s = ''Infinity'' then Inf False
      else (case scan_decimal s of
              Some (q, r) \<Rightarrow> if r = [] then Fin q else NaN
            | None \<Rightarrow> NaN))"

definition radix_literal :: "nat \<Rightarrow> string \<Rightarrow> jsnum" where
  "radix_literal b ds = (if ds \<noteq> [] \<and> list_all (\<lambda>c. digit_val c < b) ds then Fin (of_nat (nat_of_radix b ds)) else NaN)"

text \<open>\<open>Number(s)\<close>, also written \<open>+s\<close>.\<close>

definition to_number :: "string \<Rightarrow> jsnum" where
  "to_number str =
     (let s = trim str
      in if s = [] then Fin 0
         else if take 2 s = ''0x'' \<or> take 2 s = ''0X'' then radix_literal 16 (drop 2 s)
         else if take 2 s = ''0o'' \<or> take 2 s = ''0O'' then radix_literal 8 (drop 2 s)
         else if take 2 s = ''0b'' \<or> take 2 s = ''0B'' then radix_literal 2 (drop 2 s)
         else with_sign number_literal s)"

definition float_prefix :: "string \<Rightarrow> jsnum" where
  "float_prefix s =
     (if take 8 s = ''Infinity'' then Inf False
      else (case scan_decimal s of Some (q, _) \<Rightarrow> Fin q | None \<Rightarrow> NaN))"

definition parseFloat :: "string \<Rightarrow> jsnum" where
  "parseFloat s = with_sign float_prefix (dropWhile is_space s)"

definition int_prefix :: "nat \<Rightarrow> string \<Rightarrow> jsnum" where
  "int_prefix b s =
     (let t = (if b = 16 \<and> (take 2 s = ''0x'' \<or> take 2 s = ''0X'') then drop 2 s else s);
          ds = takeWhile (\<lambda>c. digit_val c < b) t
      in if ds = [] then NaN else Fin (of_nat (nat_of_radix b ds)))"

text \<open>\<open>parseInt(s, b)\<close> for a radix \<open>2 \<le> b \<le> 36\<close>.\<close>

definition parseInt :: "string \<Rightarrow> nat \<Rightarrow> jsnum" where
  "parseInt s b = with_sign (int_prefix b) (dropWhile is_space s)"

section \<open>32-bit conversions\<close>

text \<open>\<open>ToUint32\<close> and \<open>ToInt32\<close>: truncate towards zero, then reduce modulo \<open>2^32\<close>.\<close>

definition rat_trunc :: "rat \<Rightarrow> int" where
  "rat_trunc q = (if 0 \<le> q then \<lfloor>q\<rfloor> else - \<lfloor>- q\<rfloor>)"

fun to_uint32 :: "jsnum \<Rightarrow> nat" where
  "to_uint32 (Fin q) = nat (rat_trunc q mod 4294967296)"
| "to_uint32 _ = 0"

definition to_int32 :: "jsnum \<Rightarrow> int" where
  "to_int32 x = (let u = to_uint32 x in if u < 2147483648 then int u else int u - 4294967296)"

section \<open>Laws\<close>

lemma takeWhile_all: "\<forall>c \<in> set s. p c \<Longrightarrow> takeWhile p s = s \<and> dropWhile p s = []"
  by (induction s) auto

lemma digit_not_space: "is_digit c \<Longrightarrow> \<not> is_space c"
  by (auto simp: is_digit_def is_space_def)

lemma trim_digits: "(\<And>c. c \<in> set s \<Longrightarrow> is_digit c) \<Longrightarrow> trim s = s"
proof -
  assume d: "\<And>c. c \<in> set s \<Longrightarrow> is_digit c"
  have "dropWhile is_space t = t" if "\<And>c. c \<in> set t \<Longrightarrow> is_digit c" for t
    using that digit_not_space by (cases t) auto
  from this [of s] this [of "rev s"] d show ?thesis by (simp add: trim_def trim_by_def)
qed

lemma digits_not_char: "(\<And>c. c \<in> set s \<Longrightarrow> is_digit c) \<Longrightarrow> \<not> is_digit x \<Longrightarrow> x \<notin> set s"
  by auto

text \<open>A string of decimal digits denotes the number it spells.\<close>

lemma to_number_digits [js_str]:
  assumes "s \<noteq> []" and d: "\<And>c. c \<in> set s \<Longrightarrow> is_digit c"
  shows "to_number s = Fin (of_nat (nat_of_radix 10 s))"
proof -
  have nd: "\<not> is_digit CHR ''x''" "\<not> is_digit CHR ''X''" "\<not> is_digit CHR ''o''" "\<not> is_digit CHR ''O''"
    "\<not> is_digit CHR ''b''" "\<not> is_digit CHR ''B''" "\<not> is_digit CHR ''I''" "\<not> is_digit CHR ''-''" "\<not> is_digit CHR ''+''"
    by (simp_all add: is_digit_def code_def)
  have t: "take 2 s \<noteq> CHR ''0'' # [x]" if "\<not> is_digit x" for x
    using that d by (cases s; cases "tl s") (auto simp: take_Suc eval_nat_numeral)
  obtain c u where c: "s = c # u" using assms(1) by (cases s) auto
  have "is_digit c" using d by (simp add: c)
  then have "with_sign number_literal s = number_literal s"
    using nd by (auto simp: c with_sign_def)
  moreover have "s \<noteq> ''Infinity''" using d nd(7) by (auto simp: c)
  moreover have tw: "takeWhile is_digit s = s" and dw: "dropWhile is_digit s = []"
    using takeWhile_all [of s is_digit] d by blast+
  have "scan_decimal s = Some (of_nat (nat_of_radix 10 s), [])"
    using assms(1) by (simp add: tw dw Let_def scan_decimal_def scan_exp_def scale10_def)
  ultimately have "with_sign number_literal s = Fin (of_nat (nat_of_radix 10 s))"
    by (simp add: number_literal_def)
  then show ?thesis
    using assms(1) t nd by (simp add: to_number_def trim_digits [OF d])
qed

lemma to_number_dec: "to_number (dec_string n) = Fin (of_nat n)"
  using to_number_digits [of "dec_string n"] dec_string_digits radix_round_trip [of 10 n] by simp

lemma num_le_Fin_iff [simp]: "num_le (Fin a) (Fin b) = (a \<le> b)"
  by simp

end
