(* ===== verification/Cbi.thy ===== *)
theory Cbi
  imports Regex JsNumber "HOL-Library.Word"
begin

unbundle bit_operations_syntax

text \<open>
  The helpers of \<open>cbi.js\<close>: the string hash \<open>sfh\<close> that keys the translations, the translation
  functions, the evaluation of option dependencies, the form validation loop and the
  \<open>printf\<close>-like \<open>String.prototype.format\<close>.
\<close>

section \<open>The string hash\<close>

text \<open>Numbers of the hash are non-negative integers below \<open>2^53\<close>; the bitwise operators reduce
  them modulo \<open>2^32\<close>, the additions do not.\<close>

definition u32 :: "nat \<Rightarrow> nat" where
  "u32 n = n mod 4294967296"

text \<open>\<open>(n << k) >>> 0\<close> and \<open>n >>> k\<close>\<close>

definition shl32 :: "nat \<Rightarrow> nat \<Rightarrow> nat" where
  "shl32 n k = u32 (push_bit k (u32 n))"

definition shr32 :: "nat \<Rightarrow> nat \<Rightarrow> nat" where
  "shr32 n k = drop_bit k (u32 n)"

text \<open>\<open>(a ^ b) >>> 0\<close>\<close>

definition xor32 :: "nat \<Rightarrow> nat \<Rightarrow> nat" where
  "xor32 a b = u32 a XOR u32 b"

definition s8 :: "nat list \<Rightarrow> nat \<Rightarrow> nat" where
  "s8 bytes off = (let n = bytes ! off in if n > 127 then 4294967296 + n - 256 else n)"

definition u16 :: "nat list \<Rightarrow> nat \<Rightarrow> nat" where
  "u16 bytes off = u32 (shl32 (bytes ! (off + 1)) 8 + bytes ! off)"

text \<open>The bytes of one UTF-16 code unit.\<close>

definition unit_bytes :: "nat \<Rightarrow> nat list" where
  "unit_bytes ch =
     (if ch \<le> 127 then [ch]
      else if ch \<le> 2047 then
        [(shr32 ch 6 AND 31) OR 192, (ch AND 63) OR 128]
      else
        [(shr32 ch 12 AND 15) OR 224, (shr32 ch 6 AND 63) OR 128, (ch AND 63) OR 128])"

definition mix :: "nat \<Rightarrow> nat \<Rightarrow> nat \<Rightarrow> nat" where
  "mix hash lo hi =
     (let h = hash + lo;
          tmp = xor32 (shl32 hi 11) h;
          g = xor32 (shl32 h 16) tmp
      in g + shr32 g 11)"

fun sfh_loop :: "nat list \<Rightarrow> nat \<Rightarrow> nat \<Rightarrow> nat \<Rightarrow> nat" where
  "sfh_loop bytes 0 off hash = hash"
| "sfh_loop bytes (Suc len) off hash =
     sfh_loop bytes len (off + 4) (mix hash (u16 bytes off) (u16 bytes (off + 2)))"

definition sfh_tail :: "nat list \<Rightarrow> nat \<Rightarrow> nat \<Rightarrow> nat" where
  "sfh_tail bytes off hash =
     (if length bytes mod 4 = 3 then
        let h = hash + u16 bytes off;
            h2 = xor32 h (shl32 h 16);
            h3 = xor32 h2 (shl32 (s8 bytes (off + 2)) 18)
        in h3 + shr32 h3 11
      else if length bytes mod 4 = 2 then
        let h = hash + u16 bytes off;
            h2 = xor32 h (shl32 h 11)
        in h2 + shr32 h2 17
      else if length bytes mod 4 = 1 then
        let h = hash + s8 bytes off;
            h2 = xor32 h (shl32 h 10)
        in h2 + shr32 h2 1
      else hash)"

definition avalanche :: "nat \<Rightarrow> nat" where
  "avalanche h =
     (let a = xor32 h (shl32 h 3);
          b = a + shr32 a 5;
          c = xor32 b (shl32 b 4);
          d = c + shr32 c 17;
          e = xor32 d (shl32 d 25)
      in e + shr32 e 6)"

definition sfh_bytes :: "nat list \<Rightarrow> nat" where
  "sfh_bytes bytes =
     (let len = length bytes div 4
      in avalanche (sfh_tail bytes (4 * len) (sfh_loop bytes len 0 (length bytes))))"

text \<open>The argument is a list of UTF-16 code units; \<open>None\<close> stands for \<open>null\<close>.\<close>

definition sfh :: "nat list option \<Rightarrow> string option" where
  "sfh s =
     (case s of
        None \<Rightarrow> None
      | Some us \<Rightarrow>
          if us = [] then None
          else let bytes = concat (map unit_bytes us)
               in if bytes = [] then None
                  else Some (drop 1 (hex_string (4294967296 + sfh_bytes bytes))))"

section \<open>Translations\<close>

definition is_blank :: "char \<Rightarrow> bool" where
  "is_blank c \<longleftrightarrow> c = CHR '' '' \<or> code c = 9 \<or> code c = 10"

text \<open>\<open>.replace(/[ \t\n]+/g, ' ')\<close>\<close>

fun squeeze :: "string \<Rightarrow> string" where
  "squeeze [] = []"
| "squeeze (c # s) =
     (if is_blank c then
        (case s of [] \<Rightarrow> '' '' | d # t \<Rightarrow> if is_blank d then squeeze s else CHR '' '' # squeeze s)
      else c # squeeze s)"

definition trimws :: "string \<Rightarrow> string" where
  "trimws s = squeeze (trim s)"

definition tr_key :: "string \<Rightarrow> string option \<Rightarrow> string" where
  "tr_key s c = (case c of Some ctx \<Rightarrow> trimws ctx @ [char_of (1 :: nat)] | None \<Rightarrow> []) @ trimws s"

definition tr_lookup :: "string jsobj option \<Rightarrow> string \<Rightarrow> string option" where
  "tr_lookup TR k =
     (case TR of
        None \<Rightarrow> None
      | Some m \<Rightarrow>
          (case Option.bind (sfh (Some (map code k))) (oget m) of
             Some t \<Rightarrow> if t = [] then None else Some t
           | None \<Rightarrow> None))"

definition translate :: "string jsobj option \<Rightarrow> string \<Rightarrow> string option \<Rightarrow> string" where
  "translate TR s c = (case tr_lookup TR (tr_key s c) of Some t \<Rightarrow> t | None \<Rightarrow> s)"

text \<open>\<open>plural\<close> is the function compiled from the catalogue's plural formula, \<open>None\<close> when no
  catalogue is loaded.\<close>

definition translate_n ::
  "string jsobj option \<Rightarrow> (nat \<Rightarrow> nat) option \<Rightarrow> nat \<Rightarrow> string \<Rightarrow> string \<Rightarrow> string option \<Rightarrow> string" where
  "translate_n TR plural n s p c =
     (let (i, shown) = (case plural of
            Some f \<Rightarrow> (f n, dec_string (f n))
          | None \<Rightarrow> (if n \<noteq> 1 then 1 else 0, if n \<noteq> 1 then ''true'' else ''false''));
          k = tr_key s c @ [char_of (2 :: nat)] @ shown
      in (case tr_lookup TR k of Some t \<Rightarrow> t | None \<Rightarrow> if i \<noteq> 0 then p else s))"

section \<open>Dependencies\<close>

record input_elem =
  i_id :: string
  i_name :: string
  i_type :: string
  i_checked :: bool
  i_value :: string

definition cbi_d_checkvalue :: "input_elem list \<Rightarrow> string \<Rightarrow> string \<Rightarrow> bool" where
  "cbi_d_checkvalue inputs target ref =
     (case find (\<lambda>i. (i_id i = target \<or> i_name i = target) \<and>
                    ((i_type i \<noteq> ''radio'' \<and> i_type i \<noteq> ''checkbox'') \<or> i_checked i)) inputs of
        Some i \<Rightarrow> i_value i = ref
      | None \<Rightarrow> ref = [])"

text \<open>One alternative: the pair of \<open>istat\<close> and \<open>reverse\<close>, and whether it sets \<open>def\<close>.\<close>

fun dep_eval :: "input_elem list \<Rightarrow> (string \<times> string) list \<Rightarrow> bool \<times> bool \<times> bool \<Rightarrow> bool \<times> bool \<times> bool" where
  "dep_eval inputs [] (istat, reverse, d) = (istat, reverse, d)"
| "dep_eval inputs ((j, v) # ds) (istat, reverse, d) =
     (if j = ''!reverse'' then dep_eval inputs ds (istat, True, d)
      else if j = ''!default'' then dep_eval inputs ds (False, reverse, True)
      else dep_eval inputs ds (istat \<and> cbi_d_checkvalue inputs j v, reverse, d))"

fun cbi_d_check_from :: "input_elem list \<Rightarrow> string jsobj list \<Rightarrow> bool \<Rightarrow> bool" where
  "cbi_d_check_from inputs [] d = d"
| "cbi_d_check_from inputs (dep # deps) d =
     (let (istat, reverse, d') = dep_eval inputs dep (True, False, d)
      in if istat \<noteq> reverse then True else cbi_d_check_from inputs deps d')"

definition cbi_d_check :: "input_elem list \<Rightarrow> string jsobj list \<Rightarrow> bool" where
  "cbi_d_check inputs deps = cbi_d_check_from inputs deps False"

record dep_entry =
  d_id :: string
  d_parent :: string
  d_deps :: "string jsobj list"
  d_index :: int

text \<open>\<open>cbi_d_add\<close> for an element with the given id and parent id.\<close>

definition cbi_d_add :: "string \<Rightarrow> string \<Rightarrow> string jsobj \<Rightarrow> int \<Rightarrow> dep_entry list \<Rightarrow> dep_entry list" where
  "cbi_d_add eid parent dep index ds =
     (if \<exists>e \<in> set ds. d_id e = eid then
        (let pre = takeWhile (\<lambda>e. d_id e \<noteq> eid) ds; post = dropWhile (\<lambda>e. d_id e \<noteq> eid) ds
         in pre @ (hd post)\<lparr>d_deps := d_deps (hd post) @ [dep]\<rparr> # tl post)
      else \<lparr>d_id = eid, d_parent = parent, d_deps = [dep], d_index = index\<rparr> # ds)"

section \<open>Form validation\<close>

text \<open>\<open>validators\<close> gives the outcome of each registered validator; the number of validators run is
  returned with the verdict.\<close>

fun run_validators :: "bool \<Rightarrow> bool list \<Rightarrow> bool \<times> nat" where
  "run_validators errmsg [] = (True, 0)"
| "run_validators errmsg (v # vs) =
     (if \<not> v \<and> errmsg then (False, 1) else (let (r, n) = run_validators errmsg vs in (r, Suc n)))"

definition cbi_validate_form :: "string \<Rightarrow> bool list option \<Rightarrow> bool \<Rightarrow> bool \<times> nat" where
  "cbi_validate_form cbi_state validators errmsg =
     (if cbi_state = ''add-section'' \<or> cbi_state = ''del-section'' then (True, 0)
      else (case validators of None \<Rightarrow> (True, 0) | Some vs \<Rightarrow> run_validators errmsg vs))"

end
