(* ===== verification/Format.thy ===== *)
theory Format
  imports Regex JsNumber
begin

text \<open>
  \<open>String.prototype.format\<close> of \<open>cbi.js\<close>.  The loop keeps the variables that outlive an
  iteration: \<open>subst\<close> (reused when the arguments run out) and \<open>pad\<close>.  A placeholder whose
  argument cannot be converted with \<open>toString\<close> makes the call throw.
\<close>

section \<open>Values\<close>

datatype fparam =
    PUndef
  | PNull
  | PBool bool
  | PNum jsnum
  | PStr string
  | PObj string   \<comment> \<open>an object or array with its string form\<close>

fun param_num :: "fparam \<Rightarrow> jsnum" where
  "param_num PUndef = NaN"
| "param_num PNull = Fin 0"
| "param_num (PBool b) = Fin (if b then 1 else 0)"
| "param_num (PNum x) = x"
| "param_num (PStr s) = to_number s"
| "param_num (PObj s) = to_number s"

definition int_string :: "nat \<Rightarrow> int \<Rightarrow> string" where
  "int_string b i = (if i < 0 then ''-'' @ radix_string b (nat (- i)) else radix_string b (nat i))"

text \<open>The decimal digits after the point, exact for numbers with at most 17 of them.\<close>

fun fraction_digits :: "nat \<Rightarrow> rat \<Rightarrow> string" where
  "fraction_digits 0 q = []"
| "fraction_digits (Suc n) q =
     (if q = 0 then [] else digit_char (nat \<lfloor>10 * q\<rfloor>) # fraction_digits n (10 * q - of_int \<lfloor>10 * q\<rfloor>))"

fun num_string :: "jsnum \<Rightarrow> string" where
  "num_string NaN = ''NaN''"
| "num_string (Inf b) = (if b then ''-Infinity'' else ''Infinity'')"
| "num_string (Fin q) =
     (let a = \<bar>q\<bar>; w = \<lfloor>a\<rfloor>; f = fraction_digits 17 (a - of_int w)
      in (if q < 0 then ''-'' else []) @ dec_string (nat w) @ (if f = [] then [] else CHR ''.'' # f))"

text \<open>\<open>x.toFixed(n)\<close>: the nearest multiple of \<open>10^-n\<close>, the larger one of two.\<close>

fun toFixed :: "jsnum \<Rightarrow> nat \<Rightarrow> string" where
  "toFixed NaN n = ''NaN''"
| "toFixed (Inf b) n = num_string (Inf b)"
| "toFixed (Fin q) n =
     (let m = \<lfloor>\<bar>q\<bar> * 10 ^ n + 1 / 2\<rfloor>;
          w = m div 10 ^ n;
          f = dec_string (nat (m mod 10 ^ n))
      in (if q < 0 then ''-'' else []) @ dec_string (nat w) @
         (if n = 0 then [] else CHR ''.'' # replicate (n - length f) CHR ''0'' @ f))"

text \<open>\<open>Math.floor(+param || 0).toString(b)\<close>\<close>

definition floor_string :: "nat \<Rightarrow> fparam \<Rightarrow> string" where
  "floor_string b p = (case or_zero (param_num p) of Fin q \<Rightarrow> int_string b \<lfloor>q\<rfloor> | x \<Rightarrow> num_string x)"

text \<open>The string form used by concatenation, and by the method call \<open>toString()\<close>, which
  \<open>null\<close> and \<open>undefined\<close> do not have.\<close>

fun concat_string :: "fparam \<Rightarrow> string" where
  "concat_string PUndef = ''undefined''"
| "concat_string PNull = ''null''"
| "concat_string (PBool b) = (if b then ''true'' else ''false'')"
| "concat_string (PNum x) = num_string x"
| "concat_string (PStr s) = s"
| "concat_string (PObj s) = s"

definition method_toString :: "fparam \<Rightarrow> string jsret" where
  "method_toString p = (case p of PUndef \<Rightarrow> Throw ''TypeError'' | PNull \<Rightarrow> Throw ''TypeError'' | _ \<Rightarrow> Ret (concat_string p))"

section \<open>Escaping\<close>

definition esc_with :: "(char \<times> string) list \<Rightarrow> string \<Rightarrow> string" where
  "esc_with tab s = fold (\<lambda>(c, r) t. concat (map (\<lambda>x. if x = c then r else [x]) t)) tab s"

definition html_esc :: "(char \<times> string) list" where
  "html_esc = [(CHR ''&'', ''&#38;''), (CHR 0x22, ''&#34;''), (CHR 0x27, ''&#39;''), (CHR ''<'', ''&#60;''), (CHR ''>'', ''&#62;'')]"

definition quot_esc :: "(char \<times> string) list" where
  "quot_esc = [(CHR 0x22, ''&#34;''), (CHR 0x27, ''&#39;'')]"

fun esc :: "fparam \<Rightarrow> (char \<times> string) list \<Rightarrow> string" where
  "esc PUndef r = []"
| "esc PNull r = []"
| "esc (PObj s) r = []"
| "esc p r = esc_with r (concat_string p)"

section \<open>Durations and magnitudes\<close>

definition falsy :: "fparam \<Rightarrow> bool" where
  "falsy p \<longleftrightarrow> p \<in> {PUndef, PNull, PBool False, PNum NaN, PNum (Fin 0), PStr []}"

definition rat_mod :: "rat \<Rightarrow> rat \<Rightarrow> rat" where
  "rat_mod a b = a - b * of_int (rat_trunc (a / b))"

text \<open>The case \<open>%t\<close> for a finite number of seconds; the remaining values compare as not greater
  than 59 or print as the number they convert to.\<close>

definition duration :: "fparam \<Rightarrow> string" where
  "duration param =
     (case (if falsy param then Fin 0 else param_num param) of
        Fin ts0 \<Rightarrow>
          (let (tm0, ts) = (if ts0 > 59 then (\<lfloor>ts0 / 60\<rfloor>, rat_mod ts0 60) else (0, ts0));
               (th0, tm) = (if tm0 > 59 then (tm0 div 60, tm0 mod 60) else (0, tm0));
               (td, th) = (if th0 > 23 then (th0 div 24, th0 mod 24) else (0, th0));
               hms = int_string 10 th @ ''h '' @ int_string 10 tm @ ''m '' @ int_string 10 \<lfloor>ts\<rfloor> @ ''s''
           in if td > 0 then int_string 10 td @ ''d '' @ hms else hms)
      | Inf False \<Rightarrow> ''Infinityd NaNh NaNm 0s''
      | _ \<Rightarrow> ''0h 0m '' @ floor_string 10 param @ ''s'')"

definition units :: "string list" where
  "units = ['' '', '' K'', '' M'', '' G'', '' T'', '' P'', '' E'']"

fun num_div :: "jsnum \<Rightarrow> jsnum \<Rightarrow> jsnum" where
  "num_div (Fin a) (Fin b) =
     (if b \<noteq> 0 then Fin (a / b) else if a = 0 then NaN else Inf (a < 0))"
| "num_div (Inf a) (Fin b) = (if b < 0 then Inf (\<not> a) else Inf a)"
| "num_div (Fin a) (Inf b) = Fin 0"
| "num_div _ _ = NaN"

fun scale_down :: "nat \<Rightarrow> jsnum \<Rightarrow> jsnum \<Rightarrow> nat \<Rightarrow> jsnum \<times> nat" where
  "scale_down 0 mf val i = (val, i)"
| "scale_down (Suc n) mf val i =
     (if num_less mf val then scale_down n mf (num_div val mf) (Suc i) else (val, i))"

definition magnitude :: "string option \<Rightarrow> string option \<Rightarrow> fparam \<Rightarrow> string" where
  "magnitude pMinLength pPrecision param =
     (let mf = (case pMinLength of Some l \<Rightarrow> to_number l | None \<Rightarrow> Fin 1000);
          pr = (case pPrecision of
                  Some p \<Rightarrow> (case to_number (CHR ''0'' # p) of Fin q \<Rightarrow> nat (rat_trunc (10 * q)) | _ \<Rightarrow> 0)
                | None \<Rightarrow> 2);
          (val, i) = scale_down (length units) mf (or_zero (param_num param)) 0
      in if i \<noteq> 0 then
           toFixed val pr @ (if i < length units then units ! i else ''undefined'') @
           (if mf = Fin 1024 then ''i'' else [])
         else num_string val @ '' '')"

section \<open>The loop\<close>

text \<open>\<open>/^(([^%]*)%('.|0|\x20)?(-)?(\d+)?(\.\d+)?(%|b|c|d|u|f|o|s|x|X|q|h|j|t|m))/\<close>\<close>

definition format_re :: rexp where
  "format_re = RGrp 1 (RCat [
     RGrp 2 (RStar (RChr (\<lambda>c. c \<noteq> CHR ''%''))), RLit CHR ''%'',
     ROpt (RGrp 3 (RAlt (RSeq (RLit CHR 0x27) (RChr (\<lambda>c. code c \<noteq> 10 \<and> code c \<noteq> 13)))
       (RAlt (RLit CHR ''0'') (RLit CHR '' '')))),
     ROpt (RGrp 4 (RLit CHR ''-'')),
     ROpt (RGrp 5 (RPlus (RChr is_digit))),
     ROpt (RGrp 6 (RSeq (RLit CHR ''.'') (RPlus (RChr is_digit)))),
     RGrp 7 (RChr (\<lambda>c. c \<in> set ''%bcdufosxXqhjtm''))])"

definition convert :: "string \<Rightarrow> string option \<Rightarrow> string option \<Rightarrow> fparam \<Rightarrow> fparam" where
  "convert pType pMinLength pPrecision param =
     (if pType = ''b'' then PStr (floor_string 2 param)
      else if pType = ''c'' then PStr [char_of (to_uint32 (or_zero (param_num param)) mod 65536)]
      else if pType = ''d'' then PStr (floor_string 10 param)
      else if pType = ''u'' then
        PStr (floor_string 10 (PNum (case or_zero (param_num param) of
                Fin n \<Rightarrow> Fin (if n < 0 then 4294967296 + n else n) | x \<Rightarrow> x)))
      else if pType = ''f'' then
        (case pPrecision of
           Some p \<Rightarrow> PStr (toFixed (or_zero (param_num param)) (nat_of_radix 10 (drop 1 p)))
         | None \<Rightarrow> PNum (or_zero (param_num param)))
      else if pType = ''o'' then PStr (floor_string 8 param)
      else if pType = ''x'' then PStr (map to_lower (floor_string 16 param))
      else if pType = ''X'' then PStr (map to_upper (floor_string 16 param))
      else if pType = ''h'' then PStr (esc param html_esc)
      else if pType = ''q'' then PStr (esc param quot_esc)
      else if pType = ''t'' then PStr (duration param)
      else if pType = ''m'' then PStr (magnitude pMinLength pPrecision param)
      else param)"

text \<open>The padding loop counts from the length of the text up to the minimum length and each time appends
  a blank or prepends the pad string.\<close>

definition pad_to :: "bool \<Rightarrow> string \<Rightarrow> nat \<Rightarrow> string \<Rightarrow> string" where
  "pad_to left_justified pad n s =
     (if left_justified then s @ replicate (n - length s) CHR '' ''
      else concat (replicate (n - length s) pad) @ s)"

text \<open>The variables of one iteration after the substitution is computed: the substitution, the pad,
  and the minimum length (which \<open>%m\<close> clears).\<close>

definition substitute ::
  "string \<Rightarrow> caps \<Rightarrow> fparam list \<Rightarrow> fparam \<Rightarrow> string \<Rightarrow> fparam \<times> string \<times> string option \<times> fparam list" where
  "substitute leftpart a args subst pad =
     (let pType = the (cap a 7); pMinLength = cap a 5
      in if pType = ''%'' then (PStr ''%'', pad, pMinLength, args)
         else (case args of
                 [] \<Rightarrow> (subst, pad, pMinLength, [])
               | param # rest \<Rightarrow>
                   (convert pType pMinLength (cap a 6) param,
                    (case cap a 3 of
                       Some p \<Rightarrow> if take 1 p = [CHR 0x27] then take 1 (drop 1 leftpart) else p
                     | None \<Rightarrow> '' ''),
                    if pType = ''m'' then None else pMinLength,
                    rest)))"

lemma exec_format_shrinks: "exec format_re str = Some a \<Longrightarrow> the (cap a 1) \<noteq> [] \<and> length (the (cap a 1)) \<le> length str"
proof -
  assume "exec format_re str = Some a"
  then obtain t where t: "(a, t) \<in> set (rmatch format_re str)"
    by (cases "rmatch format_re str") (auto simp: exec_def intro: that [of "snd (hd (rmatch format_re str))"])
  obtain r where r: "format_re = RGrp 1 r" and r2: "r = RCat [
     RGrp 2 (RStar (RChr (\<lambda>c. c \<noteq> CHR ''%''))), RLit CHR ''%'',
     ROpt (RGrp 3 (RAlt (RSeq (RLit CHR 0x27) (RChr (\<lambda>c. code c \<noteq> 10 \<and> code c \<noteq> 13)))
       (RAlt (RLit CHR ''0'') (RLit CHR '' '')))),
     ROpt (RGrp 4 (RLit CHR ''-'')),
     ROpt (RGrp 5 (RPlus (RChr is_digit))),
     ROpt (RGrp 6 (RSeq (RLit CHR ''.'') (RPlus (RChr is_digit)))),
     RGrp 7 (RChr (\<lambda>c. c \<in> set ''%bcdufosxXqhjtm''))]"
    by (simp add: format_re_def)
  from t obtain cs where cs: "(cs, t) \<in> set (rmatch r str)" "a = cs @ [(1, take (length str - length t) str)]"
    by (auto simp: r)
  from rmatch_sound [OF cs(1)] obtain u where u: "str = u @ t" "rlang r u t" by blast
  have "u \<noteq> []" using u(2) unfolding r2 RCat.simps RLit_def by (auto elim!: rlang_seqE)
  moreover have "cap a 1 = Some u" by (simp add: cap_def cs(2) u(1))
  ultimately show ?thesis using u(1) by simp
qed

function format_loop :: "string \<Rightarrow> fparam list \<Rightarrow> fparam \<Rightarrow> string \<Rightarrow> string \<Rightarrow> string jsret" where
  "format_loop str args subst pad out =
     (case exec format_re str of
        None \<Rightarrow> Ret (out @ str)
      | Some a \<Rightarrow>
          (let leftpart = the (cap a 2);
               (subst1, pad1, minlen, args1) = substitute leftpart a args subst pad;
               rest = drop (length (the (cap a 1))) str
           in (case minlen of
                 None \<Rightarrow> format_loop rest args1 subst1 pad1 (out @ leftpart @ concat_string subst1)
               | Some l \<Rightarrow>
                   (case method_toString subst1 of
                      Ret s \<Rightarrow>
                        (let s1 = pad_to (cap a 4 = Some ''-'') pad1 (nat_of_radix 10 l) s
                         in format_loop rest args1 (PStr s1) pad1 (out @ leftpart @ s1))
                    | Throw e \<Rightarrow> Throw e
                    | Hang \<Rightarrow> Hang))))"
  by pat_completeness auto
termination
proof (relation "measure (\<lambda>(str, _). length str)", goal_cases)
  case 1
  then show ?case by simp
next
  case (2 str args subst pad out a lp x sub1 y pad1 z ml args1 rest)
  then show ?case using exec_format_shrinks [OF 2(1)] by (cases str) auto
next
  case (3 str args subst pad out a lp x sub1 y pad1 z ml args1 rest l s s1)
  then show ?case using exec_format_shrinks [OF 3(1)] by (cases str) auto
qed

definition format :: "string \<Rightarrow> fparam list \<Rightarrow> string jsret" where
  "format str args = format_loop str args PUndef ''undefined'' []"

text \<open>\<open>String.prototype.nobr\<close>: each run of white space becomes one non-breaking space entity.\<close>

fun nobr :: "string \<Rightarrow> string" where
  "nobr [] = []"
| "nobr (c # s) =
     (if is_space c then
        (case s of [] \<Rightarrow> ''&#160;'' | d # t \<Rightarrow> if is_space d then nobr s else ''&#160;'' @ nobr s)
      else c # nobr s)"

end
