(* ===== verification/CbiLaws.thy ===== *)
theory CbiLaws
  imports Cbi Format
begin

unbundle bit_operations_syntax

text \<open>
  Laws of the helpers: the hash equals the 32-bit word computation it is meant to be and prints as
  eight hexadecimal digits, the dependency check decides the stated condition, escaped text holds no
  markup, and the behaviour of \<open>format\<close>.
\<close>

section \<open>The hash as a 32-bit computation\<close>

type_synonym w32 = "32 word"

definition wmix :: "w32 \<Rightarrow> w32 \<Rightarrow> w32 \<Rightarrow> w32" where
  "wmix hash lo hi =
     (let h = hash + lo; g = push_bit 16 h XOR (push_bit 11 hi XOR h) in g + drop_bit 11 g)"

definition w16 :: "nat list \<Rightarrow> nat \<Rightarrow> w32" where
  "w16 bytes off = push_bit 8 (of_nat (bytes ! (off + 1))) + of_nat (bytes ! off)"

text \<open>A byte read as a signed character.\<close>

definition wchar :: "nat list \<Rightarrow> nat \<Rightarrow> w32" where
  "wchar bytes off = (let n = bytes ! off in if n > 127 then of_nat n - 256 else of_nat n)"

fun wloop :: "nat list \<Rightarrow> nat \<Rightarrow> nat \<Rightarrow> w32 \<Rightarrow> w32" where
  "wloop bytes 0 off hash = hash"
| "wloop bytes (Suc len) off hash = wloop bytes len (off + 4) (wmix hash (w16 bytes off) (w16 bytes (off + 2)))"

definition wtail :: "nat list \<Rightarrow> nat \<Rightarrow> w32 \<Rightarrow> w32" where
  "wtail bytes off hash =
     (if length bytes mod 4 = 3 then
        let h = hash + w16 bytes off; h2 = h XOR push_bit 16 h; h3 = h2 XOR push_bit 18 (wchar bytes (off + 2))
        in h3 + drop_bit 11 h3
      else if length bytes mod 4 = 2 then
        let h = hash + w16 bytes off; h2 = h XOR push_bit 11 h in h2 + drop_bit 17 h2
      else if length bytes mod 4 = 1 then
        let h = hash + wchar bytes off; h2 = h XOR push_bit 10 h in h2 + drop_bit 1 h2
      else hash)"

definition wavalanche :: "w32 \<Rightarrow> w32" where
  "wavalanche h =
     (let a = h XOR push_bit 3 h; b = a + drop_bit 5 a;
          c = b XOR push_bit 4 b; d = c + drop_bit 17 c;
          e = d XOR push_bit 25 d
      in e + drop_bit 6 e)"

definition whash :: "nat list \<Rightarrow> w32" where
  "whash bytes =
     (let len = length bytes div 4 in wavalanche (wtail bytes (4 * len) (wloop bytes len 0 (of_nat (length bytes)))))"

lemma u32_take_bit: "u32 n = take_bit 32 n"
  by (simp add: u32_def take_bit_eq_mod)

lemma bit_w32: "bit (of_nat n :: w32) i \<longleftrightarrow> i < 32 \<and> bit n i"
  by transfer (simp add: bit_take_bit_iff bit_of_nat_iff)

lemma of_nat_u32: "(of_nat (u32 n) :: w32) = of_nat n"
  by (rule bit_word_eqI) (simp add: bit_w32 u32_take_bit bit_take_bit_iff)

lemma of_nat_xor32: "(of_nat (xor32 a b) :: w32) = of_nat a XOR of_nat b"
  by (rule bit_word_eqI) (simp add: bit_w32 xor32_def u32_take_bit bit_take_bit_iff bit_xor_iff)

lemma of_nat_shl32: "(of_nat (shl32 n k) :: w32) = push_bit k (of_nat n)"
  by (rule bit_word_eqI) (auto simp: bit_w32 shl32_def u32_take_bit bit_take_bit_iff bit_push_bit_iff)

lemma of_nat_shr32: "(of_nat (shr32 n k) :: w32) = drop_bit k (of_nat n)"
  by (rule bit_word_eqI) (auto simp: bit_w32 shr32_def u32_take_bit bit_take_bit_iff bit_drop_bit_eq)

lemma of_nat_u16: "(of_nat (u16 bytes off) :: w32) = w16 bytes off"
  by (simp add: u16_def w16_def of_nat_u32 of_nat_shl32)

lemma of_nat_s8: "(of_nat (s8 bytes off) :: w32) = wchar bytes off"
proof (cases "bytes ! off > 127")
  case True
  have "4294967296 + bytes ! off - 256 = 4294967040 + bytes ! off" by simp
  then have "of_nat (4294967296 + bytes ! off - 256) = (of_nat (bytes ! off) - 256 :: w32)"
    by (simp only: of_nat_add of_nat_numeral) simp
  then show ?thesis using True by (simp add: s8_def wchar_def Let_def)
qed (simp add: s8_def wchar_def Let_def)

lemmas hash_hom = of_nat_u32 of_nat_xor32 of_nat_shl32 of_nat_shr32 of_nat_u16 of_nat_s8

lemma of_nat_mix: "(of_nat (mix h lo hi) :: w32) = wmix (of_nat h) (of_nat lo) (of_nat hi)"
  by (simp add: mix_def wmix_def Let_def hash_hom)

lemma of_nat_loop: "(of_nat (sfh_loop bytes len off h) :: w32) = wloop bytes len off (of_nat h)"
  by (induction bytes len off h rule: sfh_loop.induct) (simp_all add: of_nat_mix of_nat_u16)

lemma of_nat_tail: "(of_nat (sfh_tail bytes off h) :: w32) = wtail bytes off (of_nat h)"
  by (simp add: sfh_tail_def wtail_def Let_def hash_hom)

lemma of_nat_avalanche: "(of_nat (avalanche h) :: w32) = wavalanche (of_nat h)"
  by (simp add: avalanche_def wavalanche_def Let_def hash_hom)

lemma of_nat_sfh: "(of_nat (sfh_bytes bytes) :: w32) = whash bytes"
  by (simp add: sfh_bytes_def whash_def Let_def of_nat_loop of_nat_tail of_nat_avalanche)

lemma avalanche_less: "avalanche h < 2 * 4294967296"
proof -
  have x: "xor32 a b < 4294967296" for a b
  proof -
    have "xor32 a b = take_bit 32 (a XOR b)" by (simp add: xor32_def u32_take_bit take_bit_xor)
    then show ?thesis using take_bit_nat_less_exp [of 32 "a XOR b"] by simp
  qed
  have "shr32 e 6 \<le> u32 e" for e by (simp add: shr32_def drop_bit_eq_div)
  then have s: "shr32 e 6 < 4294967296" for e by (rule le_less_trans) (simp add: u32_def)
  show ?thesis unfolding avalanche_def Let_def using add_strict_mono [OF x s] by simp
qed

text \<open>The printed form of a number between \<open>2^32\<close> and \<open>3 * 2^32\<close>, less its first digit.\<close>

lemma radix_string_len_ge:
  assumes "2 \<le> b" "b ^ k \<le> n"
  shows "k < length (radix_string b n)"
  using assms
proof (induction k arbitrary: n)
  case (Suc k)
  have "b ^ k * b \<le> n" using Suc.prems by (simp add: mult.commute)
  then have k: "b ^ k \<le> n div b" using Suc.prems(1) by (simp add: less_eq_div_iff_mult_less_eq)
  moreover have "0 < b ^ k" using Suc.prems(1) by simp
  ultimately have "0 < n div b" by linarith
  then have "b \<le> n" by (simp add: div_greater_zero_iff)
  with k Suc show ?case by (simp add: radix_string.simps [of b n])
qed simp

lemma foldl_radix: "foldl (\<lambda>n c. n * b + digit_val c) a s = a * b ^ length s + nat_of_radix b s"
proof (induction s arbitrary: a)
  case (Cons c s)
  from Cons [of "a * b + digit_val c"] Cons [of "digit_val c"] show ?case
    by (simp add: nat_of_radix_def algebra_simps)
qed (simp add: nat_of_radix_def)

lemma nat_of_radix_Cons: "nat_of_radix b (c # s) = digit_val c * b ^ length s + nat_of_radix b s"
  using foldl_radix [of b "digit_val c" s] by (simp add: nat_of_radix_def)

lemma nat_of_radix_less: "(\<And>c. c \<in> set s \<Longrightarrow> digit_val c < b) \<Longrightarrow> nat_of_radix b s < b ^ length s"
proof (induction s)
  case (Cons c s)
  then have "nat_of_radix b s < b ^ length s" and c: "digit_val c < b" by simp_all
  moreover have "Suc (digit_val c) * b ^ length s \<le> b * b ^ length s"
    using c by (intro mult_le_mono1) simp
  ultimately show ?case by (simp add: nat_of_radix_Cons)
qed simp

lemma hex_digit_val: "c \<in> set (hex_string n) \<Longrightarrow> digit_val c < 16"
  using radix_string_chars [of 16 c n] by (auto simp: digit_val_char)

lemma hash_digits:
  assumes "h < 2 * 4294967296"
  shows "length (drop 1 (hex_string (4294967296 + h))) = 8 \<and>
    nat_of_radix 16 (drop 1 (hex_string (4294967296 + h))) = h mod 4294967296"
proof -
  let ?n = "4294967296 + h"
  have "8 < length (hex_string ?n)" by (rule radix_string_len_ge) simp_all
  moreover have "length (hex_string ?n) \<le> 9" by (rule radix_string_length) (use assms in simp_all)
  ultimately have l: "length (hex_string ?n) = 9" by linarith
  then obtain c t where ct: "hex_string ?n = c # t" "length t = 8" by (cases "hex_string ?n") auto
  have "?n = digit_val c * 16 ^ 8 + nat_of_radix 16 t"
    using radix_round_trip [of 16 ?n] ct by (simp add: nat_of_radix_Cons)
  moreover have "nat_of_radix 16 t < 16 ^ 8"
    using nat_of_radix_less [of t 16] hex_digit_val [of _ ?n] ct by auto
  ultimately have "?n mod 4294967296 = nat_of_radix 16 t" by simp
  then show ?thesis using ct by simp
qed

lemma word_hash:
  "us \<noteq> [] \<Longrightarrow> \<exists>h. sfh (Some us) = Some h \<and> length h = 8 \<and> (\<forall>c \<in> set h. is_hex c) \<and>
     nat_of_radix 16 h = unat (whash (concat (map unit_bytes us)))"
proof -
  assume us: "us \<noteq> []"
  let ?b = "concat (map unit_bytes us)"
  have b: "?b \<noteq> []" using us by (cases us) (simp_all add: unit_bytes_def)
  have "sfh_bytes ?b < 2 * 4294967296" unfolding sfh_bytes_def Let_def by (rule avalanche_less)
  note d = hash_digits [OF this]
  have "unat (whash ?b) = sfh_bytes ?b mod 4294967296"
    unfolding of_nat_sfh [symmetric] by (simp add: unat_of_nat)
  moreover have "\<forall>c \<in> set (drop 1 (hex_string (4294967296 + sfh_bytes ?b))). is_hex c"
    using hex_string_hex in_set_dropD by metis
  ultimately show ?thesis
    using us b d unfolding sfh_def option.case Let_def
    by (intro exI [of _ "drop 1 (hex_string (4294967296 + sfh_bytes ?b))"]) simp
qed

section \<open>Dependencies\<close>

lemma dep_eval_plain:
  assumes "''!default'' \<notin> set (okeys ds)"
  shows "dep_eval inputs ds (b, r, d) =
    (b \<and> (\<forall>(j, v) \<in> set ds. j \<noteq> ''!reverse'' \<longrightarrow> cbi_d_checkvalue inputs j v),
     r \<or> ''!reverse'' \<in> set (okeys ds), d)"
  using assms
proof (induction ds arbitrary: b r)
  case (Cons p ds)
  then show ?case by (cases p) (auto simp: okeys_def)
qed (simp add: okeys_def)

text \<open>An alternative holds when all its conditions do, or, reversed, when one does not.\<close>

definition dep_holds :: "input_elem list \<Rightarrow> string jsobj \<Rightarrow> bool" where
  "dep_holds inputs ds \<longleftrightarrow>
     (\<forall>(j, v) \<in> set ds. j \<noteq> ''!reverse'' \<longrightarrow> cbi_d_checkvalue inputs j v) \<noteq> (''!reverse'' \<in> set (okeys ds))"

lemma check_from_plain:
  assumes "\<forall>ds \<in> set deps. ''!default'' \<notin> set (okeys ds)"
  shows "cbi_d_check_from inputs deps d \<longleftrightarrow> (\<exists>ds \<in> set deps. dep_holds inputs ds) \<or> d"
  using assms
proof (induction deps)
  case (Cons ds deps)
  then show ?case
    using dep_eval_plain [of ds inputs True False d] by (auto simp: dep_holds_def)
qed simp

section \<open>Escaping\<close>

lemma esc_step_other: "x \<notin> set r \<Longrightarrow> x \<notin> set (concat (map (\<lambda>y. if y = c then r else [y]) t)) \<longleftrightarrow> x = c \<or> x \<notin> set t"
  by auto

lemma esc_html_safe: "x \<in> {CHR 0x22, CHR 0x27, CHR ''<'', CHR ''>''} \<Longrightarrow> x \<notin> set (esc_with html_esc s)"
  unfolding esc_with_def html_esc_def
  by (elim insertE emptyE) (simp_all add: esc_step_other del: set_concat)

lemma esc_quot_safe: "x \<in> {CHR 0x22, CHR 0x27} \<Longrightarrow> x \<notin> set (esc_with quot_esc s)"
  unfolding esc_with_def quot_esc_def
  by (elim insertE emptyE) (simp_all add: esc_step_other del: set_concat)

section \<open>Placeholders\<close>

lemma format_loop_done:
  "exec format_re str = None \<Longrightarrow> format_loop str args subst pad out = Ret (out @ str)"
  by (simp add: format_loop.simps)

lemma exec_no_percent: "CHR ''%'' \<notin> set s \<Longrightarrow> exec format_re s = None"
proof (rule ccontr)
  assume n: "CHR ''%'' \<notin> set s" and "exec format_re s \<noteq> None"
  then have "test format_re s" by (auto simp: exec_def test_def split: list.splits)
  then obtain u t where u: "s = u @ t" "rlang format_re u t" unfolding test_iff_rlang by blast
  have "CHR ''%'' \<in> set u"
    using u(2) unfolding format_re_def RCat.simps RLit_def by (auto elim!: rlang_seqE rlang_grpE rlang_chrE)
  with n u(1) show False by simp
qed

section \<open>Properties\<close>

text \<open>
  C27.  The hash that keys the translation catalogue is the 32-bit hash of the UTF-8 bytes, although the
  code lets intermediate sums exceed 32 bits: its value is that of the word computation, printed with
  exactly eight hexadecimal digits.
\<close>

theorem sfh_is_word_hash:
  "us \<noteq> [] \<Longrightarrow> \<exists>h. sfh (Some us) = Some h \<and> length h = 8 \<and> (\<forall>c \<in> set h. is_hex c) \<and>
     nat_of_radix 16 h = unat (whash (concat (map unit_bytes us)))"
  by (rule word_hash)

theorem sfh_is_word_hash_witness:
  "length (the (sfh (Some [65, 66]))) = 8"
  using sfh_is_word_hash [of "[65, 66]"] by auto



text \<open>
  C30.  Text inserted with \<open>%h\<close> cannot open markup or end an attribute: its escaped form has no angle
  bracket and no quote.
\<close>

theorem format_escape_safe:
  "set (esc p html_esc) \<inter> {CHR 0x22, CHR 0x27, CHR ''<'', CHR ''>''} = {}"
proof -
  have "set (esc_with html_esc s) \<inter> {CHR 0x22, CHR 0x27, CHR ''<'', CHR ''>''} = {}" for s
    using esc_html_safe by blast
  then show ?thesis by (cases p) (simp_all del: concat_string.simps Int_insert_right)
qed

text \<open>
  A format string without a percent sign is returned unchanged whatever the arguments, and a
  placeholder beyond the last argument repeats the previous substitution instead of being left alone.
\<close>

theorem format_plain_and_missing:
  "(CHR ''%'' \<notin> set s \<longrightarrow> format s args = Ret s) \<and>
   format ''%s-%s'' [PStr ''a''] = Ret ''a-a'' \<and>
   format ''%5s'' [PNull] = Throw ''TypeError''"
proof -
  have "CHR ''%'' \<notin> set s \<Longrightarrow> format s args = Ret s"
    by (simp add: format_def format_loop_done exec_no_percent)
  moreover have "format ''%s-%s'' [PStr ''a''] = Ret ''a-a''" by code_simp
  moreover have "format ''%5s'' [PNull] = Throw ''TypeError''" by code_simp
  ultimately show ?thesis by blast
qed

theorem format_plain_and_missing_witness: "format ''plain text'' [PNum NaN] = Ret ''plain text''"
  using format_plain_and_missing [of "''plain text''" "[PNum NaN]"] by simp

end
