(* ===== verification/Prng.thy ===== *)
theory Prng
  imports CbiLaws
begin

text \<open>
  The seeded pseudo random numbers of \<open>tools/prng.js\<close>: a 64-bit linear congruential generator
  kept in four 16-bit limbs, and the colours derived from a name.  The arithmetic on limbs is refined
  to arithmetic modulo \<open>2^64\<close>.
\<close>

section \<open>Limb arithmetic\<close>

text \<open>One step of the inner loop of \<open>mul\<close>: \<open>t = a[i] * b[j] + r[i+j] + k\<close>.\<close>

fun mul_row :: "nat list \<Rightarrow> nat \<Rightarrow> nat list \<Rightarrow> nat \<Rightarrow> nat list \<times> nat" where
  "mul_row [] bj rs k = (rs, k)"
| "mul_row (a # as) bj [] k = ([], k)"
| "mul_row (a # as) bj (r # rs) k =
     (let t = a * bj + r + k; (rs', k') = mul_row as bj rs (shr32 t 16)
      in (u32 t mod 65536 # rs', k'))"

text \<open>The outer loop: row \<open>j\<close> works on \<open>r[j] .. r[j+3]\<close> and stores its carry in \<open>r[j+4]\<close>.\<close>

fun mul_rows :: "nat list \<Rightarrow> nat list \<Rightarrow> nat \<Rightarrow> nat list \<Rightarrow> nat list" where
  "mul_rows a [] j r = r"
| "mul_rows a (bj # b) j r =
     (let (row, k) = mul_row a bj (take 4 (drop j r)) 0
      in mul_rows a b (Suc j) (take j r @ row @ k # drop (j + 5) r))"

definition mul :: "nat list \<Rightarrow> nat list \<Rightarrow> nat list" where
  "mul a b = take 4 (mul_rows a b 0 (replicate 8 0))"

fun add_limbs :: "nat list \<Rightarrow> nat \<Rightarrow> nat list" where
  "add_limbs [] k = []"
| "add_limbs (a # as) k = (let t = a + k in u32 t mod 65536 # add_limbs as (shr32 t 16))"

definition add :: "nat list \<Rightarrow> nat \<Rightarrow> nat list" where
  "add a n = add_limbs a n"

text \<open>\<open>for (; n > 16; n -= 16, i--) r[j] = r[j+1]\<close>\<close>

function shr_words :: "nat list \<Rightarrow> nat \<Rightarrow> nat \<Rightarrow> nat list \<times> nat \<times> nat" where
  "shr_words r n i =
     (if n > 16 then shr_words (take 4 (drop 1 r) @ drop 4 r) (n - 16) (i - 1) else (r, n, i))"
  by pat_completeness auto
termination
  by (relation "measure (\<lambda>(r, n, i). n)") auto

text \<open>\<open>for (; i > 0; i--)\<close>: from the most significant limb down, with the bits shifted out kept in
  \<open>k\<close>.\<close>

fun shr_bits :: "nat list \<Rightarrow> nat \<Rightarrow> nat \<Rightarrow> nat \<Rightarrow> nat list" where
  "shr_bits r n 0 k = r"
| "shr_bits r n (Suc i) k =
     (let s = r ! i
      in shr_bits (r[i := shr32 s n OR k]) n i (shl32 (s AND (push_bit n 1 - 1)) (16 - n)))"

definition shr :: "nat list \<Rightarrow> nat \<Rightarrow> nat list" where
  "shr a n = (let (r, m, i) = shr_words (a @ [0]) n 4 in take 4 (shr_bits r m i 0))"

section \<open>The generator\<close>

text \<open>\<open>n = (n - 1)|0; s = [n & 0xffff, n >>> 16, 0, 0]\<close>\<close>

definition seed :: "jsnum \<Rightarrow> nat list" where
  "seed n =
     (let m = to_uint32 (case n of Fin q \<Rightarrow> Fin (q - 1) | x \<Rightarrow> x)
      in [m mod 65536, m div 65536, 0, 0])"

definition multiplier :: "nat list" where
  "multiplier = [0x7f2d, 0x4c95, 0xf42d, 0x5851]"

text \<open>The new state and the returned 32-bit number; \<open>(r[1] << 16) | r[0]\<close> is signed.\<close>

definition int_next :: "nat list \<Rightarrow> int \<times> nat list" where
  "int_next s =
     (let s' = add (mul s multiplier) 1;
          r = shr s' 33
      in (to_int32 (Fin (of_nat (shl32 (r ! 1) 16 OR r ! 0))), s'))"

text \<open>\<open>get()\<close>, \<open>get(u)\<close> and \<open>get(l, u)\<close>\<close>

definition get_unit :: "nat list \<Rightarrow> rat \<times> nat list" where
  "get_unit s = (let (n, s') = int_next s in (of_int (n mod 0x7fffffff) / 0x7fffffff, s'))"

definition get_range :: "int \<Rightarrow> int \<Rightarrow> nat list \<Rightarrow> int \<times> nat list" where
  "get_range l u s = (let (r, s') = get_unit s in (\<lfloor>r * of_int (u - l + 1)\<rfloor> + l, s'))"

text \<open>The argument of \<open>seed\<close>: \<open>parseInt(sfh(string), 16)\<close>.\<close>

definition colour_seed :: "string \<Rightarrow> jsnum" where
  "colour_seed name = (case sfh (Some (map code name)) of Some h \<Rightarrow> parseInt h 16 | None \<Rightarrow> parseInt ''null'' 16)"

definition derive_rgb :: "nat list \<Rightarrow> int \<times> int \<times> int" where
  "derive_rgb s0 =
     (let (r, s1) = get_range 1 128 s0;
          (g, s2) = get_range 1 128 s1;
          mn = (if r + g < 128 then 128 - r - g else 0);
          mx = (if r + g < 128 then 128 else 255 - r - g);
          (x, s3) = get_unit s2
      in (r, g, mn + \<lfloor>x * of_int (mx - mn)\<rfloor>))"

definition derive_color :: "string \<Rightarrow> string jsret" where
  "derive_color name =
     (let (r, g, b) = derive_rgb (seed (colour_seed name))
      in format ''#%02x%02x%02x''
           [PNum (Fin (of_int (255 - r))), PNum (Fin (of_int (255 - g))), PNum (Fin (of_int (255 - b)))])"

section \<open>Refinement to arithmetic modulo \<open>2^64\<close>\<close>

fun val :: "nat list \<Rightarrow> nat" where
  "val [] = 0"
| "val (x # xs) = x + 65536 * val xs"

definition limbs_ok :: "nat list \<Rightarrow> bool" where
  "limbs_ok xs \<longleftrightarrow> (\<forall>x \<in> set xs. x < 65536)"

lemma val_append: "val (xs @ ys) = val xs + 65536 ^ length xs * val ys"
  by (induction xs) (simp_all add: algebra_simps)

lemma val_less: "limbs_ok xs \<Longrightarrow> val xs < 65536 ^ length xs"
proof (induction xs)
  case (Cons x xs)
  then have "x < 65536" "Suc (val xs) \<le> 65536 ^ length xs" by (simp_all add: limbs_ok_def Suc_le_eq)
  then have "x + 65536 * val xs < 65536 * Suc (val xs)" "65536 * Suc (val xs) \<le> 65536 * 65536 ^ length xs"
    by (simp, intro mult_le_mono2)
  then have "x + 65536 * val xs < 65536 * 65536 ^ length xs" by (rule less_le_trans)
  then show ?case by simp
qed simp

lemma val_replicate: "val (replicate n 0) = 0"
  by (induction n) simp_all

lemma val_take: "limbs_ok xs \<Longrightarrow> n \<le> length xs \<Longrightarrow> val (take n xs) = val xs mod 65536 ^ n"
proof -
  assume ok: "limbs_ok xs" and n: "n \<le> length xs"
  have "limbs_ok (take n xs)" using ok by (auto simp: limbs_ok_def dest: in_set_takeD)
  then have "val (take n xs) < 65536 ^ n" using val_less [of "take n xs"] n by (simp add: min_absorb2)
  moreover have "val xs = val (take n xs) + 65536 ^ n * val (drop n xs)"
    using val_append [of "take n xs" "drop n xs"] n by (simp add: min_absorb2)
  ultimately show ?thesis by simp
qed

text \<open>A sum below \<open>2^32\<close> splits into its low limb and its carry.\<close>

lemma limb_split: "t < 4294967296 \<Longrightarrow> u32 t mod 65536 + 65536 * shr32 t 16 = t \<and> shr32 t 16 < 65536 \<and> u32 t mod 65536 < 65536"
  by (simp add: u32_def shr32_def drop_bit_eq_div)

lemma mac_bound:
  fixes a b r k :: nat
  assumes "a < 65536" "b < 65536" "r < 65536" "k < 65536"
  shows "a * b + r + k < 4294967296"
proof -
  have "a * b \<le> 65535 * 65535" using assms by (intro mult_le_mono) simp_all
  with assms show ?thesis by linarith
qed

lemma mul_row_val:
  assumes "length rs = length as" "limbs_ok as" "limbs_ok rs" "bj < 65536" "k < 65536"
  shows "case mul_row as bj rs k of (rs', k') \<Rightarrow>
    length rs' = length as \<and> limbs_ok rs' \<and> k' < 65536 \<and>
    val rs' + 65536 ^ length as * k' = val as * bj + val rs + k"
  using assms
proof (induction as bj rs k rule: mul_row.induct)
  case (3 a as bj r rs k)
  let ?t = "a * bj + r + k"
  have ok: "a < 65536" "r < 65536" "limbs_ok as" "limbs_ok rs" "length rs = length as"
    using "3.prems"(1-3) by (simp_all add: limbs_ok_def)
  have t: "?t < 4294967296" by (rule mac_bound [OF ok(1) "3.prems"(4) ok(2) "3.prems"(5)])
  note s = limb_split [OF t]
  obtain rs' k' where r': "mul_row as bj rs (shr32 ?t 16) = (rs', k')" by (cases "mul_row as bj rs (shr32 ?t 16)")
  have ih: "length rs' = length as" "limbs_ok rs'" "k' < 65536"
    "val rs' + 65536 ^ length as * k' = val as * bj + val rs + shr32 ?t 16"
    using "3.IH" [OF refl ok(5,3,4) "3.prems"(4)] s r' by auto
  have "val (u32 ?t mod 65536 # rs') + 65536 ^ length (a # as) * k' =
      u32 ?t mod 65536 + 65536 * (val rs' + 65536 ^ length as * k')" by (simp add: algebra_simps)
  also have "\<dots> = (u32 ?t mod 65536 + 65536 * shr32 ?t 16) + 65536 * (val as * bj + val rs)"
    by (simp only: ih(4)) (simp add: algebra_simps)
  also have "\<dots> = ?t + 65536 * (val as * bj + val rs)" using s by simp
  finally have "val (u32 ?t mod 65536 # rs') + 65536 ^ length (a # as) * k' = val (a # as) * bj + val (r # rs) + k"
    by (simp add: algebra_simps)
  then show ?case using ih s by (simp add: r' Let_def limbs_ok_def)
qed (simp_all add: limbs_ok_def)

lemma limbs_ok_append: "limbs_ok (xs @ ys) \<longleftrightarrow> limbs_ok xs \<and> limbs_ok ys"
  by (auto simp: limbs_ok_def)

lemma mul_rows_val:
  assumes "length a = 4" "limbs_ok a" "limbs_ok b" "length r = 8" "limbs_ok r"
    "j + length b = 4" "\<forall>i \<ge> j + 4. i < 8 \<longrightarrow> r ! i = 0"
  shows "length (mul_rows a b j r) = 8 \<and> limbs_ok (mul_rows a b j r) \<and>
    val (mul_rows a b j r) = val r + 65536 ^ j * (val a * val b)"
  using assms(3-)
proof (induction b arbitrary: j r)
  case (Cons bj b)
  let ?m = "take 4 (drop j r)"
  obtain row k where rk: "mul_row a bj ?m 0 = (row, k)" by (cases "mul_row a bj ?m 0")
  have j: "j + 5 \<le> 8" using Cons.prems by simp
  have m: "length ?m = length a" "limbs_ok ?m" "bj < 65536"
    using assms(1) Cons.prems j by (auto simp: limbs_ok_def dest!: in_set_takeD in_set_dropD)
  have row: "length row = 4" "limbs_ok row" "k < 65536" "val row + 65536 ^ 4 * k = val a * bj + val ?m"
    using mul_row_val [OF m(1) assms(2) m(2,3), of 0] by (simp_all add: rk assms(1))
  let ?r = "take j r @ row @ k # drop (j + 5) r"
  have ok: "length ?r = 8" "limbs_ok ?r"
    using Cons.prems j row by (auto simp: limbs_ok_def dest: in_set_takeD in_set_dropD)
  have z: "\<forall>i \<ge> Suc j + 4. i < 8 \<longrightarrow> ?r ! i = 0"
  proof (intro allI impI)
    fix i assume i: "Suc j + 4 \<le> i" "i < 8"
    then have "?r ! i = r ! i"
      using Cons.prems(2) j row(1) by (auto simp: nth_append nth_Cons')
    then show "?r ! i = 0" using Cons.prems(5) i by simp
  qed
  have "r = take j r @ ?m @ r ! (j + 4) # drop (j + 5) r"
  proof -
    have "drop j r = ?m @ drop (j + 4) r" using append_take_drop_id [of 4 "drop j r"] by (simp add: add.commute)
    moreover have "drop (j + 4) r = r ! (j + 4) # drop (j + 5) r"
      using Cons_nth_drop_Suc [of "j + 4" r] Cons.prems(2) j by (simp add: eval_nat_numeral)
    ultimately show ?thesis using append_take_drop_id [of j r] by simp
  qed
  moreover have "r ! (j + 4) = 0" using Cons.prems(5) j by simp
  ultimately have "val r = val (take j r @ ?m @ 0 # drop (j + 5) r)" by metis
  also have "\<dots> = val (take j r) + 65536 ^ j * (val ?m + 65536 ^ 4 * (65536 * val (drop (j + 5) r)))"
    using m(1) assms(1) j Cons.prems(2) by (simp only: val_append length_take min_absorb2) simp
  finally have rv: "val r = val (take j r) + 65536 ^ j * (val ?m + 65536 ^ 4 * (65536 * val (drop (j + 5) r)))" .
  have "val ?r = val (take j r) + 65536 ^ j * (val row + 65536 ^ 4 * (k + 65536 * val (drop (j + 5) r)))"
    using j Cons.prems(2) by (simp add: val_append row(1))
  also have "\<dots> = val r + 65536 ^ j * (val a * bj)"
    using arg_cong [OF row(4), of "(*) (65536 ^ j)"] by (simp add: rv algebra_simps)
  finally have v: "val ?r = val r + 65536 ^ j * (val a * bj)" .
  have "length (mul_rows a b (Suc j) ?r) = 8 \<and> limbs_ok (mul_rows a b (Suc j) ?r) \<and>
    val (mul_rows a b (Suc j) ?r) = val ?r + 65536 ^ Suc j * (val a * val b)"
    by (rule Cons.IH) (use Cons.prems ok z in \<open>auto simp: limbs_ok_def\<close>)
  then show ?case using v by (simp add: rk algebra_simps)
qed simp

lemma mul_val:
  assumes "length a = 4" "length b = 4" "limbs_ok a" "limbs_ok b"
  shows "length (mul a b) = 4 \<and> limbs_ok (mul a b) \<and> val (mul a b) = val a * val b mod 65536 ^ 4"
proof -
  have *: "length (mul_rows a b 0 (replicate 8 0)) = 8 \<and> limbs_ok (mul_rows a b 0 (replicate 8 0)) \<and>
    val (mul_rows a b 0 (replicate 8 0)) = val (replicate 8 0) + 65536 ^ 0 * (val a * val b)"
    by (rule mul_rows_val) (use assms in \<open>auto simp: limbs_ok_def\<close>)
  then show ?thesis
    unfolding mul_def using val_take [of "mul_rows a b 0 (replicate 8 0)" 4]
    by (auto simp: limbs_ok_def val_replicate dest: in_set_takeD)
qed

lemma limb_mod: "x < 65536 \<Longrightarrow> (x + 65536 * y) mod (65536 * m) = x + 65536 * (y mod m)" for x y m :: nat
  by (simp add: mod_mult2_eq)

lemma add_limbs_val:
  assumes "limbs_ok a" "k < 65536"
  shows "length (add_limbs a k) = length a \<and> limbs_ok (add_limbs a k) \<and>
    val (add_limbs a k) = (val a + k) mod 65536 ^ length a"
  using assms
proof (induction a k rule: add_limbs.induct)
  case (2 a as k)
  let ?t = "a + k"
  have t: "?t < 4294967296" using "2.prems" by (simp add: limbs_ok_def)
  note s = limb_split [OF t]
  have ih: "length (add_limbs as (shr32 ?t 16)) = length as" "limbs_ok (add_limbs as (shr32 ?t 16))"
    "val (add_limbs as (shr32 ?t 16)) = (val as + shr32 ?t 16) mod 65536 ^ length as"
    using "2.IH" [OF refl] "2.prems" s by (auto simp: limbs_ok_def)
  have e: "a + 65536 * val as + k = u32 ?t mod 65536 + 65536 * (val as + shr32 ?t 16)"
    using s by (simp add: algebra_simps)
  have "(a + 65536 * val as + k) mod (65536 * 65536 ^ length as) =
      u32 ?t mod 65536 + 65536 * ((val as + shr32 ?t 16) mod 65536 ^ length as)"
    unfolding e by (rule limb_mod) (use s in blast)
  with ih s show ?case by (simp add: Let_def limbs_ok_def)
qed (simp add: limbs_ok_def)

lemma or_disjoint: "b < 2 ^ k \<Longrightarrow> a mod 2 ^ k = 0 \<Longrightarrow> a OR b = a + (b :: nat)"
proof -
  assume b: "b < 2 ^ k" and a: "a mod 2 ^ k = 0"
  have "bit a n \<Longrightarrow> k \<le> n" for n
  proof (rule ccontr)
    assume "bit a n" "\<not> k \<le> n"
    then have "bit (take_bit k a) n" by (simp add: bit_take_bit_iff)
    then show False using a by (simp add: take_bit_eq_mod)
  qed
  moreover have "bit b n \<Longrightarrow> n < k" for n
  proof (rule ccontr)
    assume "bit b n" "\<not> n < k"
    moreover have "take_bit k b = b" using b by (simp add: take_bit_eq_mod)
    ultimately show False by (metis bit_take_bit_iff)
  qed
  ultimately have "a AND b = 0" by (intro bit_eqI) (force simp: bit_and_iff)
  then show ?thesis by (simp add: disjunctive_add_eq_or)
qed

lemma shr_words_33: "shr_words [a, b, c, d, 0] 33 4 = ([c, d, 0, 0, 0], 1, 2)"
  by (simp add: shr_words.simps)

lemma shr_33:
  assumes "limbs_ok [a, b, c, d]"
  shows "shr [a, b, c, d] 33 = [(c div 2) + 32768 * (d mod 2), d div 2, 0, 0]"
proof -
  have ok: "c < 65536" "d < 65536" using assms by (simp_all add: limbs_ok_def)
  have d: "shr32 x 1 = x div 2" if "x < 65536" for x
    using that by (simp add: shr32_def u32_def drop_bit_eq_div)
  have k: "shl32 (d AND (push_bit 1 1 - 1)) (16 - 1) = 32768 * (d mod 2)"
    by (simp add: shl32_def u32_def push_bit_eq_mult and_one_eq)
  have "(32768 * (d mod 2)) OR (c div 2) = 32768 * (d mod 2) + c div 2"
    by (rule or_disjoint [of _ 15]) (use ok in simp_all)
  then have o: "(c div 2) OR (32768 * (d mod 2)) = c div 2 + 32768 * (d mod 2)"
    by (simp add: or.commute)
  have "shr_bits [c, d, 0, 0, 0] 1 2 0 = [c div 2 + 32768 * (d mod 2), d div 2, 0, 0, 0]"
    using d [OF ok(1)] d [OF ok(2)] k o by (simp add: numeral_2_eq_2)
  then show ?thesis by (simp add: shr_def shr_words_33)
qed

definition lcg :: "nat \<Rightarrow> nat" where
  "lcg x = (x * 6364136223846793005 + 1) mod 2 ^ 64"

lemma multiplier_val: "val multiplier = 6364136223846793005" "length multiplier = 4" "limbs_ok multiplier"
  by (simp_all add: multiplier_def limbs_ok_def)

lemma state_next:
  assumes "length s = 4" "limbs_ok s"
  shows "length (add (mul s multiplier) 1) = 4 \<and> limbs_ok (add (mul s multiplier) 1) \<and>
    val (add (mul s multiplier) 1) = lcg (val s)"
proof -
  have m: "length (mul s multiplier) = 4" "limbs_ok (mul s multiplier)"
    "val (mul s multiplier) = val s * 6364136223846793005 mod 65536 ^ 4"
    using mul_val [OF assms(1) multiplier_val(2) assms(2) multiplier_val(3)] by (simp_all add: multiplier_val)
  have "val (add_limbs (mul s multiplier) 1) = (val s * 6364136223846793005 mod 65536 ^ 4 + 1) mod 65536 ^ 4"
    using add_limbs_val [OF m(2), of 1] m by simp
  also have "\<dots> = (val s * 6364136223846793005 + 1) mod 65536 ^ 4" by (simp only: mod_add_left_eq)
  finally show ?thesis using add_limbs_val [OF m(2), of 1] m by (simp add: add_def lcg_def)
qed

lemma list4: "length xs = 4 \<Longrightarrow> \<exists>a b c d. xs = [a, b, c, d]"
  by (auto simp: length_Suc_conv numeral_eq_Suc)

lemma high_word:
  fixes a b c d :: nat
  assumes "a < 65536" "b < 65536"
  shows "(a + 65536 * (b + 65536 * (c + 65536 * d))) div 8589934592 = 65536 * (d div 2) + (c div 2 + 32768 * (d mod 2))"
proof -
  have "(a + 65536 * (b + 65536 * (c + 65536 * d))) div 4294967296 = c + 65536 * d"
  proof -
    have "a + 65536 * (b + 65536 * (c + 65536 * d)) = (a + 65536 * b) + (c + 65536 * d) * 4294967296"
      by (simp add: algebra_simps)
    moreover have "a + 65536 * b < 4294967296" using assms by linarith
    ultimately show ?thesis by simp
  qed
  moreover have "x div 8589934592 = x div 4294967296 div 2" for x :: nat
    by (simp add: div_mult2_eq [symmetric])
  ultimately have "(a + 65536 * (b + 65536 * (c + 65536 * d))) div 8589934592 = (c + 65536 * d) div 2" by simp
  moreover have "(c + 65536 * d) div 2 = 65536 * (d div 2) + (c div 2 + 32768 * (d mod 2))"
  proof -
    have "65536 * d = 65536 * (2 * (d div 2) + d mod 2)" by simp
    then have "c + 65536 * d = c + 2 * (32768 * (d mod 2) + 65536 * (d div 2))"
      by (simp only: distrib_left mult.assoc [symmetric])
    then show ?thesis by (simp only: div_mult_self2 [of 2 c, OF zero_neq_numeral [symmetric]])
  qed
  ultimately show ?thesis by (rule trans)
qed

lemma to_int32_small: "n < 2147483648 \<Longrightarrow> to_int32 (Fin (of_nat n)) = int n"
  by (simp add: to_int32_def Let_def rat_trunc_def)

lemma low_int32:
  assumes "x < 32768" "y < 65536"
  shows "to_int32 (Fin (of_nat (shl32 x 16 OR y))) = int (65536 * x + y)"
proof -
  have "shl32 x 16 = 65536 * x" using assms(1) by (simp add: shl32_def u32_def push_bit_eq_mult)
  then have "shl32 x 16 OR y = 65536 * x + y"
    using or_disjoint [of y 16 "65536 * x"] assms(2) by simp
  moreover have "65536 * x + y < 2147483648" using assms by linarith
  ultimately show ?thesis by (simp only: to_int32_small)
qed

lemma int_next_val:
  assumes "length s = 4" "limbs_ok s"
  shows "fst (int_next s) = int (lcg (val s) div 8589934592)"
    "length (snd (int_next s)) = 4" "limbs_ok (snd (int_next s))" "val (snd (int_next s)) = lcg (val s)"
proof -
  note n = state_next [OF assms]
  show "length (snd (int_next s)) = 4" "limbs_ok (snd (int_next s))" "val (snd (int_next s)) = lcg (val s)"
    using n by (simp_all add: int_next_def Let_def)
  obtain a b c d where s': "add (mul s multiplier) 1 = [a, b, c, d]" using list4 n by blast
  have ok: "limbs_ok [a, b, c, d]" using n s' by simp
  then have lt: "a < 65536" "b < 65536" "c < 65536" "d < 65536" by (simp_all add: limbs_ok_def)
  have v: "lcg (val s) = a + 65536 * (b + 65536 * (c + 65536 * d))" using n s' by simp
  have "fst (int_next s) = to_int32 (Fin (of_nat (shl32 (d div 2) 16 OR (c div 2 + 32768 * (d mod 2)))))"
    unfolding int_next_def Let_def s' shr_33 [OF ok] fst_conv by simp
  also have "\<dots> = int (65536 * (d div 2) + (c div 2 + 32768 * (d mod 2)))"
  proof (rule low_int32)
    show "d div 2 < 32768" using lt by (simp add: div_less_iff_less_mult)
    have "c div 2 < 32768" using lt by (simp add: div_less_iff_less_mult)
    then show "c div 2 + 32768 * (d mod 2) < 65536" by (cases "d mod 2 = 0") simp_all
  qed
  also have "\<dots> = int (lcg (val s) div 8589934592)"
    unfolding v high_word [OF lt(1,2)] ..
  finally show "fst (int_next s) = int (lcg (val s) div 8589934592)" .
qed

text \<open>The generator on 64-bit values: one step yields a 31-bit number.\<close>

definition draw :: "nat \<Rightarrow> rat" where
  "draw x = of_nat ((x div 8589934592) mod 0x7fffffff) / 0x7fffffff"

lemma get_unit_val:
  assumes "length s = 4" "limbs_ok s"
  shows "fst (get_unit s) = draw (lcg (val s))" "length (snd (get_unit s)) = 4"
    "limbs_ok (snd (get_unit s))" "val (snd (get_unit s)) = lcg (val s)"
proof -
  note i = int_next_val [OF assms]
  have "of_int (int (lcg (val s) div 8589934592) mod 2147483647) = (of_nat (lcg (val s) div 8589934592 mod 2147483647) :: rat)"
    by (metis of_int_of_nat_eq of_nat_numeral zmod_int)
  then show "fst (get_unit s) = draw (lcg (val s))"
    using i(1) by (simp add: get_unit_def draw_def split_beta)
  show "length (snd (get_unit s)) = 4" "limbs_ok (snd (get_unit s))" "val (snd (get_unit s)) = lcg (val s)"
    using i by (simp_all add: get_unit_def split_beta)
qed

lemma draw_bounds: "0 \<le> draw x" "draw x < 1"
proof -
  have "(x div 8589934592) mod 0x7fffffff < 0x7fffffff" by simp
  then have "of_nat ((x div 8589934592) mod 0x7fffffff) < (0x7fffffff :: rat)"
    by (metis of_nat_less_iff of_nat_numeral)
  then show "draw x < 1" by (simp add: draw_def)
qed (simp add: draw_def)

lemma floor_scaled: "0 \<le> x \<Longrightarrow> x < 1 \<Longrightarrow> 0 < n \<Longrightarrow> 0 \<le> \<lfloor>x * of_int n\<rfloor> \<and> \<lfloor>x * of_int n\<rfloor> < n" for x :: rat
  by (simp add: floor_less_iff)

definition range_of :: "int \<Rightarrow> int \<Rightarrow> nat \<Rightarrow> int" where
  "range_of l u x = \<lfloor>draw x * of_int (u - l + 1)\<rfloor> + l"

lemma get_range_val:
  assumes "length s = 4" "limbs_ok s"
  shows "fst (get_range l u s) = range_of l u (lcg (val s))" "length (snd (get_range l u s)) = 4"
    "limbs_ok (snd (get_range l u s))" "val (snd (get_range l u s)) = lcg (val s)"
  using get_unit_val [OF assms] by (simp_all add: get_range_def range_of_def split_beta)

lemma range_of_bounds: "l \<le> u \<Longrightarrow> l \<le> range_of l u x \<and> range_of l u x \<le> u"
  using floor_scaled [OF draw_bounds, of "u - l + 1" x] by (simp add: range_of_def)

definition rgb_of :: "nat \<Rightarrow> int \<times> int \<times> int" where
  "rgb_of x =
     (let r = range_of 1 128 (lcg x); g = range_of 1 128 (lcg (lcg x));
          mn = (if r + g < 128 then 128 - r - g else 0);
          mx = (if r + g < 128 then 128 else 255 - r - g)
      in (r, g, mn + \<lfloor>draw (lcg (lcg (lcg x))) * of_int (mx - mn)\<rfloor>))"

lemma derive_rgb_val:
  assumes "length s = 4" "limbs_ok s"
  shows "derive_rgb s = rgb_of (val s)"
proof -
  note a = get_range_val [OF assms, of 1 128]
  note b = get_range_val [OF a(2,3), of 1 128]
  note c = get_unit_val [OF b(2,3)]
  show ?thesis
    using a b c by (simp add: derive_rgb_def rgb_of_def Let_def split_beta)
qed

lemma seed_ok: "length (seed n) = 4 \<and> limbs_ok (seed n) \<and> val (seed n) = to_uint32 (case n of Fin q \<Rightarrow> Fin (q - 1) | x \<Rightarrow> x)"
proof -
  let ?m = "to_uint32 (case n of Fin q \<Rightarrow> Fin (q - 1) | x \<Rightarrow> x)"
  have "to_uint32 x < 4294967296" for x by (cases x) (simp_all add: nat_less_iff)
  then have "?m div 65536 < 65536" by (simp add: div_less_iff_less_mult)
  then show ?thesis by (simp add: seed_def Let_def limbs_ok_def)
qed

lemma parse_hex:
  assumes "h \<noteq> []" "\<forall>c \<in> set h. is_hex c"
  shows "parseInt h 16 = Fin (of_nat (nat_of_radix 16 h))"
proof -
  have v: "digit_val c < 16" if "is_hex c" for c
    using that by (auto simp: is_hex_def digit_val_def is_digit_def is_lower_def is_upper_def)
  have n: "\<not> is_hex CHR ''x''" "\<not> is_hex CHR ''X''" "\<not> is_hex CHR ''-''" "\<not> is_hex CHR ''+''"
    by (simp_all add: is_hex_def is_digit_def code_def)
  have sp: "\<not> is_space c" if "is_hex c" for c
    using that by (auto simp: is_hex_def is_space_def is_digit_def)
  obtain c t where c: "h = c # t" using assms(1) by (cases h) auto
  have d: "dropWhile is_space h = h" using sp assms(2) by (simp add: c)
  have sg: "with_sign (int_prefix 16) h = int_prefix 16 h"
    using assms(2) n by (auto simp: c with_sign_def)
  have x: "take 2 h \<noteq> ''0x'' \<and> take 2 h \<noteq> ''0X''"
    using assms(2) n by (cases t) (auto simp: c)
  have tw: "takeWhile (\<lambda>c. digit_val c < 16) h = h" using v assms(2) by (simp add: takeWhile_eq_all_conv)
  show ?thesis
    unfolding parseInt_def d sg int_prefix_def Let_def using x assms(1) by (simp add: tw)
qed

lemma colour_seed_val:
  assumes "name \<noteq> []"
  shows "colour_seed name = Fin (of_nat (unat (whash (concat (map unit_bytes (map code name))))))"
proof -
  obtain h where h: "sfh (Some (map code name)) = Some h" "length h = 8" "\<forall>c \<in> set h. is_hex c"
    "nat_of_radix 16 h = unat (whash (concat (map unit_bytes (map code name))))"
    using word_hash [of "map code name"] assms by auto
  have "h \<noteq> []" using h(2) by auto
  from parse_hex [OF this h(3)] h show ?thesis by (simp add: colour_seed_def)
qed

lemma rgb_bounds:
  assumes "rgb_of x = (r, g, b)"
  shows "1 \<le> r \<and> r \<le> 128 \<and> 1 \<le> g \<and> g \<le> 128 \<and> b \<le> 127 \<and> (r + g < 256 \<longrightarrow> 0 \<le> b)"
proof -
  let ?x = "draw (lcg (lcg (lcg x)))"
  have rg: "r = range_of 1 128 (lcg x)" "g = range_of 1 128 (lcg (lcg x))"
    using assms by (simp_all add: rgb_of_def Let_def)
  have bd: "1 \<le> r" "r \<le> 128" "1 \<le> g" "g \<le> 128"
    using range_of_bounds [of 1 128] by (simp_all add: rg)
  show ?thesis
  proof (cases "r + g < 128")
    case True
    then have "b = 128 - r - g + \<lfloor>?x * of_int (r + g)\<rfloor>"
      using assms by (auto simp: rgb_of_def Let_def rg)
    moreover have "0 \<le> \<lfloor>?x * of_int (r + g)\<rfloor> \<and> \<lfloor>?x * of_int (r + g)\<rfloor> < r + g"
      by (rule floor_scaled [OF draw_bounds]) (use bd in simp)
    ultimately show ?thesis using bd True by linarith
  next
    case False
    then have b: "b = \<lfloor>?x * of_int (255 - r - g)\<rfloor>"
      using assms by (auto simp: rgb_of_def Let_def rg)
    show ?thesis
    proof (cases "r + g < 255")
      case True
      have "0 \<le> \<lfloor>?x * of_int (255 - r - g)\<rfloor> \<and> \<lfloor>?x * of_int (255 - r - g)\<rfloor> < 255 - r - g"
        by (rule floor_scaled [OF draw_bounds]) (use True in simp)
      with b bd False show ?thesis by linarith
    next
      case F: False
      then have "?x * of_int (255 - r - g) \<le> 0"
        using draw_bounds [of "lcg (lcg (lcg x))"] by (simp add: mult_nonneg_nonpos)
      then have "b \<le> 0" by (simp add: b floor_le_iff)
      moreover have "b = 0" if "r + g = 255"
      proof -
        have "255 - r - g = 0" using that by simp
        then show ?thesis by (simp only: b of_int_0 mult_zero_right floor_zero)
      qed
      ultimately show ?thesis using bd F by auto
    qed
  qed
qed

lemma dole_format: "format ''#%02x%02x%02x'' [PNum (Fin 127), PNum (Fin 127), PNum (Fin 256)] = Ret ''#7f7f100''"
  by code_simp

lemma dole_rgb: "rgb_of 3746987935 = (128, 128, -1)"
proof -
  have l: "lcg 3746987935 = 18444234033200058356" "lcg 18444234033200058356 = 18316929498657790437"
    "lcg 18316929498657790437 = 15250533012272130114"
    by (simp_all add: lcg_def)
  have d: "draw 18444234033200058356 = 2147191440 / 2147483647" "draw 18316929498657790437 = 2132371242 / 2147483647"
    "draw 15250533012272130114 = 1775395708 / 2147483647"
    by (simp_all add: draw_def)
  have r: "range_of 1 128 18444234033200058356 = 128" "range_of 1 128 18316929498657790437 = 128"
    by (simp_all add: range_of_def d floor_eq_iff)
  have "\<lfloor>- (1775395708 / 2147483647) :: rat\<rfloor> = - 1" by (simp add: floor_eq_iff)
  then show ?thesis by (simp add: rgb_of_def Let_def l r d)
qed

lemma dole_seed: "colour_seed ''dole'' = Fin 3746987936"
proof -
  have b: "concat (map unit_bytes (map code ''dole'')) = [100, 111, 108, 101]"
    by (simp add: unit_bytes_def code_def)
  have "unat (whash [100, 111, 108, 101]) = 3746987936"
    by (simp add: whash_def wloop.simps numeral_eq_Suc [of "Num.One"] wmix_def w16_def wtail_def wavalanche_def Let_def)
  then show ?thesis
    using colour_seed_val [of "''dole''"] unfolding b by (simp only: of_nat_numeral) simp
qed

section \<open>Properties\<close>

text \<open>
  C26.  The limb arithmetic implements a 64-bit linear congruential generator: one call of \<open>int\<close> takes the
  state \<open>x\<close> to \<open>6364136223846793005 x + 1\<close> modulo \<open>2^64\<close> and returns its upper 31 bits, never a negative
  number.
\<close>

theorem prng_int_is_lcg:
  assumes "length s = 4" "limbs_ok s"
  shows "fst (int_next s) = int ((val s * 6364136223846793005 + 1) mod 2 ^ 64 div 2 ^ 33) \<and>
    val (snd (int_next s)) = (val s * 6364136223846793005 + 1) mod 2 ^ 64 \<and>
    length (snd (int_next s)) = 4 \<and> limbs_ok (snd (int_next s))"
  using int_next_val [OF assms] by (simp add: lcg_def)

theorem prng_int_is_lcg_witness:
  "fst (int_next [1, 0, 0, 0]) = int (6364136223846793006 div 2 ^ 33)"
  using prng_int_is_lcg [of "[1, 0, 0, 0]"] by (simp add: limbs_ok_def)

text \<open>
  \<open>get(l, u)\<close> stays between its bounds.
\<close>

theorem prng_get_in_range:
  assumes "length s = 4" "limbs_ok s" "l \<le> u"
  shows "l \<le> fst (get_range l u s) \<and> fst (get_range l u s) \<le> u"
  using get_range_val(1) [OF assms(1,2)] range_of_bounds [OF assms(3)] by simp

theorem prng_get_in_range_witness: "1 \<le> fst (get_range 1 128 [1, 0, 0, 0]) \<and> fst (get_range 1 128 [1, 0, 0, 0]) \<le> 128"
  using prng_get_in_range [of "[1, 0, 0, 0]" 1 128] by (simp add: limbs_ok_def)

text \<open>
  The derived colour has components between 0 and 255, except when both random components are 128:
  then the third can become -1, and the colour has seven digits, as for the name \<open>dole\<close>.
\<close>

theorem derive_color_range:
  "(case derive_rgb (seed n) of (r, g, b) \<Rightarrow>
      1 \<le> r \<and> r \<le> 128 \<and> 1 \<le> g \<and> g \<le> 128 \<and> b \<le> 127 \<and> (r + g < 256 \<longrightarrow> 0 \<le> b)) \<and>
   derive_color ''dole'' = Ret ''#7f7f100''"
proof
  have "derive_rgb (seed n) = rgb_of (val (seed n))" by (rule derive_rgb_val) (simp_all add: seed_ok)
  then show "case derive_rgb (seed n) of (r, g, b) \<Rightarrow>
      1 \<le> r \<and> r \<le> 128 \<and> 1 \<le> g \<and> g \<le> 128 \<and> b \<le> 127 \<and> (r + g < 256 \<longrightarrow> 0 \<le> b)"
    using rgb_bounds [of "val (seed n)"] by (cases "rgb_of (val (seed n))") simp
  have "val (seed (colour_seed ''dole'')) = 3746987935" by (simp add: seed_ok dole_seed rat_trunc_def)
  then have "derive_rgb (seed (colour_seed ''dole'')) = (128, 128, -1)"
    using derive_rgb_val [of "seed (colour_seed ''dole'')"] seed_ok dole_rgb by simp
  then show "derive_color ''dole'' = Ret ''#7f7f100''"
    unfolding derive_color_def by (simp add: dole_format)
qed

theorem derive_color_range_witness: "derive_color ''dole'' = Ret ''#7f7f100''"
  using derive_color_range by blast

end
