(* ===== verification/Firewall.thy ===== *)
theory Firewall
  imports UciOrder Prng
begin

text \<open>
  The firewall model of \<open>firewall.js\<close> on top of the configuration cache: zones, the defaults section,
  forwardings, rules and redirects.  Every operation works on the cache state; a zone object is the
  section identifier it holds (\<^const>\<open>None\<close> when the constructor left it undefined).

  Option values are read as \<open>uval\<close>; comparing them with \<open>==\<close> converts an array to its joined
  string when the other side is a string, and two arrays are different objects.
\<close>

section \<open>Reading option values\<close>

definition ustr :: "uval \<Rightarrow> string" where
  "ustr v = (case v of UStr s \<Rightarrow> s | UList l \<Rightarrow> join '','' l
     | UBool b \<Rightarrow> (if b then ''true'' else ''false'') | UNum n \<Rightarrow> int_string 10 n)"

definition unum :: "uval \<Rightarrow> jsnum" where
  "unum v = (case v of UBool b \<Rightarrow> Fin (if b then 1 else 0) | UNum n \<Rightarrow> Fin (of_int n) | _ \<Rightarrow> to_number (ustr v))"

text \<open>\<open>a == b\<close> where \<open>null\<close> and \<open>undefined\<close> are \<^const>\<open>None\<close>.\<close>

definition loose_eq :: "uval option \<Rightarrow> uval option \<Rightarrow> bool" where
  "loose_eq a b =
     (case (a, b) of
        (None, None) \<Rightarrow> True
      | (Some (UStr s), Some (UStr t)) \<Rightarrow> s = t
      | (Some (UStr s), Some (UList l)) \<Rightarrow> s = join '','' l
      | (Some (UList l), Some (UStr s)) \<Rightarrow> s = join '','' l
      | (Some (UList l), Some (UList m)) \<Rightarrow> False
      | (Some x, Some y) \<Rightarrow> num_eq (unum x) (unum y)
      | _ \<Rightarrow> False)"

fun words_acc :: "string \<Rightarrow> string \<Rightarrow> string list" where
  "words_acc [] w = (if w = [] then [] else [w])"
| "words_acc (c # s) w =
     (if is_space c then (if w = [] then words_acc s [] else w # words_acc s []) else words_acc s (w @ [c]))"

text \<open>\<open>L.toArray\<close>: arrays as they are, other values trimmed and split on white space.\<close>

definition toArray :: "uval option \<Rightarrow> string list" where
  "toArray v = (case v of None \<Rightarrow> [] | Some (UList l) \<Rightarrow> l | Some x \<Rightarrow> words_acc (ustr x) [])"

section \<open>Policies\<close>

fun find_prefix :: "string \<Rightarrow> string list \<Rightarrow> string option" where
  "find_prefix s [] = None"
| "find_prefix s (v # vs) =
     (if take (length s) (map to_upper v) = s then Some v else find_prefix s vs)"

definition parseEnum :: "uval option \<Rightarrow> string list \<Rightarrow> string option" where
  "parseEnum s vals =
     (case s of
        None \<Rightarrow> None
      | Some v \<Rightarrow>
          let u = map to_upper (ustr v)
          in if u = [] then None else find_prefix u vals)"

definition parsePolicy :: "uval option \<Rightarrow> string option \<Rightarrow> string option" where
  "parsePolicy s defaultValue =
     (case parseEnum s [''DROP'', ''REJECT'', ''ACCEPT''] of Some p \<Rightarrow> Some p | None \<Rightarrow> defaultValue)"

section \<open>Items\<close>

text \<open>\<open>AbstractFirewallItem.get\<close> and \<open>set\<close>\<close>

definition item_get :: "string option \<Rightarrow> string \<Rightarrow> uci \<Rightarrow> uval option" where
  "item_get sid opt st = uci_get ''firewall'' sid opt st"

definition item_set :: "string option \<Rightarrow> string \<Rightarrow> uval option \<Rightarrow> uci \<Rightarrow> uci" where
  "item_set sid opt v st = uci_set ''firewall'' sid (Some opt) v st"

definition fw_set :: "string \<Rightarrow> string \<Rightarrow> uval option \<Rightarrow> uci \<Rightarrow> uci" where
  "fw_set sid opt v st = uci_set ''firewall'' (Some sid) (Some opt) v st"

text \<open>\<open>new Defaults()\<close>: the first defaults section, created when there is none.\<close>

definition new_Defaults :: "uci \<Rightarrow> (string \<times> uci) jsret" where
  "new_Defaults st =
     (case uci_sections ''firewall'' (Some ''defaults'') st of
        s # _ \<Rightarrow> Ret (s_name s, st)
      | [] \<Rightarrow> uci_add ''firewall'' ''defaults'' None st)"

definition isSynFlood :: "string \<Rightarrow> uci \<Rightarrow> bool" where
  "isSynFlood d st = loose_eq (item_get (Some d) ''syn_flood'' st) (Some (UStr ''1''))"

definition isDropInvalid :: "string \<Rightarrow> uci \<Rightarrow> bool" where
  "isDropInvalid d st = loose_eq (item_get (Some d) ''drop_invalid'' st) (Some (UStr ''1''))"

definition defaults_policy :: "string \<Rightarrow> string \<Rightarrow> uci \<Rightarrow> string option" where
  "defaults_policy d opt st = parsePolicy (item_get (Some d) opt st) (Some ''DROP'')"

text \<open>
  \<open>new Zone(name)\<close>.  For a name that is no zone section the constructor iterates over
  \<open>uci.get('firewall', 'zone')\<close>, which is the section called \<open>zone\<close> or \<open>null\<close>: reading the
  length of \<open>null\<close> throws; a section object has the length its option of that name says.
\<close>

definition legacy_scan :: "uci_section option \<Rightarrow> string option jsret" where
  "legacy_scan z =
     (case z of
        None \<Rightarrow> Throw ''TypeError''
      | Some s \<Rightarrow>
          (case oget (s_opts s) ''length'' of
             None \<Rightarrow> Ret None
           | Some v \<Rightarrow>
               (case unum v of
                  Fin q \<Rightarrow>
                    if \<forall>i \<in> set [0..<nat \<lceil>q\<rceil>]. oget (s_opts s) (dec_string i) \<noteq> None then Ret None
                    else Throw ''TypeError''
                | Inf True \<Rightarrow> Ret None
                | Inf False \<Rightarrow> Throw ''TypeError''
                | NaN \<Rightarrow> Ret None)))"

definition new_Zone :: "string option \<Rightarrow> uci \<Rightarrow> (string option \<times> uci) jsret" where
  "new_Zone name st =
     (let (z, st1) = get_section ''firewall'' name st
      in (case z of
            Some s \<Rightarrow>
              if s_type s = ''zone'' then Ret (name, st1)
              else (let (z2, st2) = get_section ''firewall'' (Some ''zone'') st1
                    in jbind (legacy_scan z2) (\<lambda>sid. Ret (sid, st2)))
          | None \<Rightarrow>
              if name = None then Ret (None, st1)
              else (let (z2, st2) = get_section ''firewall'' (Some ''zone'') st1
                    in jbind (legacy_scan z2) (\<lambda>sid. Ret (sid, st2)))))"

text \<open>The first zone section whose name option equals \<open>name\<close>.\<close>

definition zone_named :: "uval option \<Rightarrow> uci \<Rightarrow> uci_section option" where
  "zone_named name st =
     find (\<lambda>s. loose_eq (oget (s_opts s) ''name'') name) (uci_sections ''firewall'' (Some ''zone'') st)"

definition lookupZone :: "string option \<Rightarrow> uci \<Rightarrow> (string option option \<times> uci) jsret" where
  "lookupZone name st =
     (let (z, st1) = get_section ''firewall'' name st
      in (case z of
            Some s \<Rightarrow>
              if s_type s = ''zone'' then jbind (new_Zone (Some (s_name s)) st1) (\<lambda>(sid, st2). Ret (Some sid, st2))
              else (case zone_named (map_option UStr name) st1 of
                      Some s2 \<Rightarrow> jbind (new_Zone (Some (s_name s2)) st1) (\<lambda>(sid, st2). Ret (Some sid, st2))
                    | None \<Rightarrow> Ret (None, st1))
          | None \<Rightarrow>
              (case zone_named (map_option UStr name) st1 of
                 Some s2 \<Rightarrow> jbind (new_Zone (Some (s_name s2)) st1) (\<lambda>(sid, st2). Ret (Some sid, st2))
               | None \<Rightarrow> Ret (None, st1))))"

definition has_type :: "uci_section option \<Rightarrow> string \<Rightarrow> bool" where
  "has_type z t = (case z of Some s \<Rightarrow> s_type s = t | None \<Rightarrow> False)"

section \<open>The firewall object\<close>

text \<open>\<open>initFirewallState\<close>: the load may fail, which is ignored.\<close>

definition initFirewallState :: "(string \<Rightarrow> uci_section jsobj option) \<Rightarrow> uci \<Rightarrow> uci" where
  "initFirewallState fetch st = snd (uci_load fetch [''firewall''] st)"

definition getDefaults :: "(string \<Rightarrow> uci_section jsobj option) \<Rightarrow> uci \<Rightarrow> (string \<times> uci) jsret" where
  "getDefaults fetch st = new_Defaults (initFirewallState fetch st)"

definition zone_name_ok :: "string \<Rightarrow> bool" where
  "zone_name_ok s = test (RSeq (RPlus (RChr is_word)) REnd) s"

text \<open>\<open>x || 'DROP'\<close>\<close>

definition or_drop :: "string option \<Rightarrow> uval option" where
  "or_drop p = Some (UStr (case p of Some x \<Rightarrow> if x = [] then ''DROP'' else x | None \<Rightarrow> ''DROP''))"

definition create_zone :: "string \<Rightarrow> uci \<Rightarrow> (string option \<times> uci) jsret" where
  "create_zone name st =
     jbind (new_Defaults st) (\<lambda>(d, st1).
     jbind (uci_add ''firewall'' ''zone'' None st1) (\<lambda>(z, st2).
       let st3 = fw_set z ''name'' (Some (UStr name)) st2;
           st4 = fw_set z ''input'' (or_drop (defaults_policy d ''input'' st3)) st3;
           st5 = fw_set z ''output'' (or_drop (defaults_policy d ''output'' st4)) st4;
           st6 = fw_set z ''forward'' (or_drop (defaults_policy d ''forward'' st5)) st5
       in new_Zone (Some z) st6))"

definition addZone ::
  "(string \<Rightarrow> uci_section jsobj option) \<Rightarrow> string option \<Rightarrow> uci \<Rightarrow> (string option option \<times> uci) jsret" where
  "addZone fetch name st0 =
     (let st = initFirewallState fetch st0
      in (case name of
            None \<Rightarrow> Ret (None, st)
          | Some n \<Rightarrow>
              if \<not> zone_name_ok n then Ret (None, st)
              else jbind (lookupZone name st) (\<lambda>(z, st1).
                     if z \<noteq> None then Ret (None, st1)
                     else jbind (create_zone n st1) (\<lambda>(sid, st2). Ret (Some sid, st2)))))"

text \<open>\<open>this.getZone(name)\<close> is a promise, which is never \<open>null\<close>.\<close>

definition getZone ::
  "(string \<Rightarrow> uci_section jsobj option) \<Rightarrow> string option \<Rightarrow> uci \<Rightarrow> (string option option \<times> uci) jsret" where
  "getZone fetch name st = lookupZone name (initFirewallState fetch st)"

definition promise_is_null :: "'a jsret \<Rightarrow> bool" where
  "promise_is_null p = False"

partial_function (option) newZone_name ::
  "(string \<Rightarrow> uci_section jsobj option) \<Rightarrow> uci \<Rightarrow> string \<Rightarrow> nat \<Rightarrow> string option" where
  "newZone_name fetch st name cnt =
     (if \<not> promise_is_null (getZone fetch (Some name) st)
      then newZone_name fetch st (''newzone'' @ dec_string (Suc cnt)) (Suc cnt)
      else Some name)"

definition newZone ::
  "(string \<Rightarrow> uci_section jsobj option) \<Rightarrow> uci \<Rightarrow> (string option option \<times> uci) jsret" where
  "newZone fetch st =
     (let st1 = initFirewallState fetch st
      in (case newZone_name fetch st1 ''newzone'' 1 of
            None \<Rightarrow> Hang
          | Some name \<Rightarrow> addZone fetch (Some name) st1))"

fun new_Zones :: "string list \<Rightarrow> uci \<Rightarrow> (string option list \<times> uci) jsret" where
  "new_Zones [] st = Ret ([], st)"
| "new_Zones (n # ns) st =
     jbind (new_Zone (Some n) st) (\<lambda>(z, st1).
     jbind (new_Zones ns st1) (\<lambda>(zs, st2). Ret (z # zs, st2)))"

text \<open>\<open>js_sort\<close> stands for \<open>Array.prototype.sort\<close> with the comparator of the code, which returns a
  boolean and so never says that an element goes first; the order of the result is then up to the
  engine.\<close>

definition getZones ::
  "(string option list \<Rightarrow> string option list) \<Rightarrow> (string \<Rightarrow> uci_section jsobj option) \<Rightarrow> uci
     \<Rightarrow> (string option list \<times> uci) jsret" where
  "getZones js_sort fetch st0 =
     (let st = initFirewallState fetch st0
      in jbind (new_Zones (map s_name (uci_sections ''firewall'' (Some ''zone'') st)) st)
           (\<lambda>(zs, st1). Ret (js_sort zs, st1)))"

definition getZoneByNetwork ::
  "(string \<Rightarrow> uci_section jsobj option) \<Rightarrow> string \<Rightarrow> uci \<Rightarrow> (string option option \<times> uci) jsret" where
  "getZoneByNetwork fetch network st0 =
     (let st = initFirewallState fetch st0
      in (case find (\<lambda>s. network \<in> set (toArray (oget (s_opts s) ''network'')))
                 (uci_sections ''firewall'' (Some ''zone'') st) of
            Some s \<Rightarrow> jbind (new_Zone (Some (s_name s)) st) (\<lambda>(z, st1). Ret (Some z, st1))
          | None \<Rightarrow> Ret (None, st)))"

definition fw_remove :: "string \<Rightarrow> uci \<Rightarrow> uci" where
  "fw_remove sid st = uci_remove ''firewall'' sid st"

definition is_policy_type :: "uci_section \<Rightarrow> bool" where
  "is_policy_type s \<longleftrightarrow> s_type s \<in> {''rule'', ''redirect'', ''forwarding''}"

text \<open>The sections of rules, redirects and forwardings that name a zone.\<close>

definition references :: "uval option \<Rightarrow> uci_section \<Rightarrow> bool" where
  "references name s \<longleftrightarrow> is_policy_type s \<and>
     (loose_eq (oget (s_opts s) ''src'') name \<or> loose_eq (oget (s_opts s) ''dest'') name)"

definition remove_references :: "uval option \<Rightarrow> uci \<Rightarrow> uci" where
  "remove_references name st =
     fold (\<lambda>s. if references name s then fw_remove (s_name s) else id) (uci_sections ''firewall'' None st) st"

definition deleteZone ::
  "(string \<Rightarrow> uci_section jsobj option) \<Rightarrow> string option \<Rightarrow> uci \<Rightarrow> bool \<times> uci" where
  "deleteZone fetch name st0 =
     (let (z, st) = get_section ''firewall'' name (initFirewallState fetch st0)
      in (case (if has_type z ''zone'' then z else None) of
            Some s \<Rightarrow> (True, remove_references (oget (s_opts s) ''name'') (fw_remove (s_name s) st))
          | None \<Rightarrow>
              (case name of
                 None \<Rightarrow> (False, st)
               | Some n \<Rightarrow>
                   (let hits = filter (\<lambda>s. loose_eq (oget (s_opts s) ''name'') (Some (UStr n)))
                                 (uci_sections ''firewall'' (Some ''zone'') st);
                        st1 = fold (\<lambda>s. fw_remove (s_name s)) hits st
                    in if hits = [] then (False, st1) else (True, remove_references (Some (UStr n)) st1)))))"

definition rename_reference :: "string \<Rightarrow> string \<Rightarrow> uci_section \<Rightarrow> uci \<Rightarrow> uci" where
  "rename_reference old new s st =
     (if \<not> is_policy_type s then st
      else (let st1 = (if loose_eq (oget (s_opts s) ''src'') (Some (UStr old))
                       then fw_set (s_name s) ''src'' (Some (UStr new)) st else st)
            in if loose_eq (oget (s_opts s) ''dest'') (Some (UStr old))
               then fw_set (s_name s) ''dest'' (Some (UStr new)) st1 else st1))"

definition rename_references :: "string \<Rightarrow> string \<Rightarrow> uci \<Rightarrow> uci" where
  "rename_references old new st = fold (rename_reference old new) (uci_sections ''firewall'' None st) st"

definition rename_zones :: "string \<Rightarrow> string \<Rightarrow> uci \<Rightarrow> bool \<times> uci" where
  "rename_zones old new st =
     (let hits = filter (\<lambda>s. loose_eq (oget (s_opts s) ''name'') (Some (UStr old)))
                   (uci_sections ''firewall'' (Some ''zone'') st);
          st1 = fold (\<lambda>s. fw_set (s_name s) ''name'' (Some (UStr new))) hits st
      in if hits = [] then (False, st1)
         else (True, rename_references old new st1))"

definition renameZone ::
  "(string \<Rightarrow> uci_section jsobj option) \<Rightarrow> string option \<Rightarrow> string option \<Rightarrow> uci \<Rightarrow> (bool \<times> uci) jsret" where
  "renameZone fetch oldName newName st0 =
     (let st = initFirewallState fetch st0
      in (case (oldName, newName) of
            (Some old, Some new) \<Rightarrow>
              if \<not> zone_name_ok new then Ret (False, st)
              else jbind (lookupZone newName st) (\<lambda>(z, st1).
                     if z \<noteq> None then Ret (False, st1) else Ret (rename_zones old new st1))
          | _ \<Rightarrow> Ret (False, st)))"

section \<open>Zone objects\<close>

definition zone_getName :: "string option \<Rightarrow> uci \<Rightarrow> uval option" where
  "zone_getName z st = item_get z ''name'' st"

definition isMasquerade :: "string option \<Rightarrow> uci \<Rightarrow> bool" where
  "isMasquerade z st = loose_eq (item_get z ''masq'' st) (Some (UStr ''1''))"

definition zone_policy :: "string option \<Rightarrow> string \<Rightarrow> uci \<Rightarrow> (string option \<times> uci) jsret" where
  "zone_policy z opt st =
     jbind (new_Defaults st) (\<lambda>(d, st1). Ret (parsePolicy (item_get z opt st) (defaults_policy d opt st1), st1))"

definition getNetworks :: "string option \<Rightarrow> uci \<Rightarrow> string list" where
  "getNetworks z st = toArray (item_get z ''network'' st)"

definition getDevices :: "string option \<Rightarrow> uci \<Rightarrow> string list" where
  "getDevices z st = toArray (item_get z ''device'' st)"

definition getSubnets :: "string option \<Rightarrow> uci \<Rightarrow> string list" where
  "getSubnets z st = toArray (item_get z ''subnet'' st)"

text \<open>
  \<open>newNetworks.push(network)\<close> changes the array that \<open>get\<close> returned; when that is the array of the base
  section, the base value changes with it (a changed or pending value is overwritten by the following
  \<open>set\<close> anyway).
\<close>

definition push_shared :: "string \<Rightarrow> string \<Rightarrow> string \<Rightarrow> string \<Rightarrow> uci \<Rightarrow> uci" where
  "push_shared conf sid opt x st =
     (case oget2 (st_values st) conf sid of
        Some s \<Rightarrow>
          (case oget (s_opts s) opt of
             Some (UList l) \<Rightarrow>
               if oget2 (creates st) conf sid = None \<and>
                  Option.bind (oget2 (changes st) conf sid) (\<lambda>c. oget c opt) = None \<and>
                  uci_get conf (Some sid) opt st = Some (UList l)
               then st\<lparr>st_values := oset2 conf sid (s\<lparr>s_opts := oset opt (UList (l @ [x])) (s_opts s)\<rparr>) (st_values st)\<rparr>
               else st
           | _ \<Rightarrow> st)
      | None \<Rightarrow> st)"

definition zone_addNetwork :: "string option \<Rightarrow> string \<Rightarrow> uci \<Rightarrow> bool \<times> uci" where
  "zone_addNetwork z network st =
     (let (sec, st1) = get_section ''network'' (Some network) st
      in if \<not> has_type sec ''interface'' then (False, st1)
         else (let nets = getNetworks z st1
               in if network \<in> set nets then (False, st1)
                  else (let st2 = (case resolveSID ''firewall'' z st1 of
                                     Some sid \<Rightarrow> push_shared ''firewall'' sid ''network'' network st1
                                   | None \<Rightarrow> st1)
                        in (True, item_set z ''network'' (Some (UList (nets @ [network]))) st2))))"

definition zone_deleteNetwork :: "string option \<Rightarrow> string \<Rightarrow> uci \<Rightarrow> bool \<times> uci" where
  "zone_deleteNetwork z network st =
     (let old = getNetworks z st; new = filter (\<lambda>n. n \<noteq> network) old
      in (length new < length old,
          item_set z ''network'' (if new \<noteq> [] then Some (UList new) else None) st))"

definition clearNetworks :: "string option \<Rightarrow> uci \<Rightarrow> uci" where
  "clearNetworks z st = item_set z ''network'' None st"

fun delete_from_zones :: "string option list \<Rightarrow> string \<Rightarrow> uci \<Rightarrow> bool \<Rightarrow> bool \<times> uci" where
  "delete_from_zones [] network st rv = (rv, st)"
| "delete_from_zones (z # zs) network st rv =
     (let (b, st1) = zone_deleteNetwork z network st in delete_from_zones zs network st1 (rv \<or> b))"

definition fw_deleteNetwork ::
  "(string option list \<Rightarrow> string option list) \<Rightarrow> (string \<Rightarrow> uci_section jsobj option) \<Rightarrow> string \<Rightarrow> uci
     \<Rightarrow> (bool \<times> uci) jsret" where
  "fw_deleteNetwork js_sort fetch network st =
     jbind (getZones js_sort fetch st) (\<lambda>(zs, st1). Ret (delete_from_zones zs network st1 False))"

text \<open>Complete forwardings whose \<open>what\<close> is this zone.\<close>

definition forwards_of :: "string option \<Rightarrow> string \<Rightarrow> uci \<Rightarrow> uci_section list" where
  "forwards_of z what st =
     filter (\<lambda>s. oget (s_opts s) ''src'' \<noteq> None \<and> oget (s_opts s) ''dest'' \<noteq> None \<and>
                 loose_eq (sec_prop s what) (zone_getName z st))
       (uci_sections ''firewall'' (Some ''forwarding'') st)"

definition getForwardingsBy :: "string option \<Rightarrow> string \<Rightarrow> uci \<Rightarrow> string list" where
  "getForwardingsBy z what st = map s_name (forwards_of z what st)"

definition deleteForwardingsBy :: "string option \<Rightarrow> string \<Rightarrow> uci \<Rightarrow> bool \<times> uci" where
  "deleteForwardingsBy z what st =
     (let fs = getForwardingsBy z what st in (fs \<noteq> [], fold fw_remove fs st))"

definition add_forwarding :: "uval option \<Rightarrow> uval option \<Rightarrow> uci \<Rightarrow> (string option \<times> uci) jsret" where
  "add_forwarding src dest st =
     jbind (uci_add ''firewall'' ''forwarding'' None st) (\<lambda>(sid, st1).
       Ret (Some sid, fw_set sid ''dest'' dest (fw_set sid ''src'' src st1)))"

definition addForwardingTo :: "string option \<Rightarrow> string option \<Rightarrow> uci \<Rightarrow> (string option \<times> uci) jsret" where
  "addForwardingTo z dest st =
     (let forwards = getForwardingsBy z ''src'' st
      in jbind (lookupZone dest st) (\<lambda>(zone, st1).
           case zone of
             None \<Rightarrow> Ret (None, st1)
           | Some other \<Rightarrow>
               if loose_eq (zone_getName other st1) (zone_getName z st1) then Ret (None, st1)
               else if \<exists>f \<in> set forwards. loose_eq (item_get (Some f) ''dest'' st1) (zone_getName other st1)
               then Ret (None, st1)
               else add_forwarding (zone_getName z st1) (zone_getName other st1) st1))"

definition addForwardingFrom :: "string option \<Rightarrow> string option \<Rightarrow> uci \<Rightarrow> (string option \<times> uci) jsret" where
  "addForwardingFrom z src st =
     (let forwards = getForwardingsBy z ''dest'' st
      in jbind (lookupZone src st) (\<lambda>(zone, st1).
           case zone of
             None \<Rightarrow> Ret (None, st1)
           | Some other \<Rightarrow>
               if loose_eq (zone_getName other st1) (zone_getName z st1) then Ret (None, st1)
               else if \<exists>f \<in> set forwards. loose_eq (item_get (Some f) ''src'' st1) (zone_getName other st1)
               then Ret (None, st1)
               else add_forwarding (zone_getName other st1) (zone_getName z st1) st1))"

text \<open>A forwarding, rule or redirect object passed as an argument: only the constructor of
  \<open>Forwarding\<close> stores the identifier it is given.\<close>

datatype fw_item = Forwarding string | Rule | Redirect

definition fw_item_sid :: "fw_item \<Rightarrow> string option" where
  "fw_item_sid i = (case i of Forwarding sid \<Rightarrow> Some sid | _ \<Rightarrow> None)"

definition deleteForwarding :: "fw_item option \<Rightarrow> uci \<Rightarrow> bool \<times> uci" where
  "deleteForwarding f st =
     (case f of
        Some (Forwarding sid) \<Rightarrow>
          (let (s, st1) = get_section ''firewall'' (Some sid) st
           in (case s of
                 Some x \<Rightarrow> if s_type x = ''forwarding'' then (True, fw_remove (s_name x) st1) else (False, st1)
               | None \<Rightarrow> (False, st1)))
      | _ \<Rightarrow> (False, st))"

definition add_item :: "string \<Rightarrow> fw_item \<Rightarrow> string option \<Rightarrow> uval jsobj \<Rightarrow> uci \<Rightarrow> (fw_item \<times> uci) jsret" where
  "add_item ty item z options st =
     jbind (uci_add ''firewall'' ty None st) (\<lambda>(sid, st1).
       let st2 = fold (\<lambda>(k, v). fw_set sid k (Some v)) options st1
       in Ret (item, fw_set sid ''src'' (zone_getName z st2) st2))"

definition addRedirect :: "string option \<Rightarrow> uval jsobj \<Rightarrow> uci \<Rightarrow> (fw_item \<times> uci) jsret" where
  "addRedirect z options st = add_item ''redirect'' Redirect z options st"

definition addRule :: "string option \<Rightarrow> uval jsobj \<Rightarrow> uci \<Rightarrow> (fw_item \<times> uci) jsret" where
  "addRule z options st = add_item ''rule'' Rule z options st"

definition getSource :: "fw_item \<Rightarrow> uci \<Rightarrow> uval option" where
  "getSource i st = item_get (fw_item_sid i) ''src'' st"

definition getDestination :: "fw_item \<Rightarrow> uci \<Rightarrow> uval option" where
  "getDestination i st = item_get (fw_item_sid i) ''dest'' st"

definition getSourceZone :: "fw_item \<Rightarrow> uci \<Rightarrow> (string option option \<times> uci) jsret" where
  "getSourceZone i st = lookupZone (map_option ustr (getSource i st)) st"

definition getDestinationZone :: "fw_item \<Rightarrow> uci \<Rightarrow> (string option option \<times> uci) jsret" where
  "getDestinationZone i st = lookupZone (map_option ustr (getDestination i st)) st"

section \<open>Colours\<close>

definition getColorForName :: "string option \<Rightarrow> string jsret" where
  "getColorForName forName =
     (case forName of
        None \<Rightarrow> Ret ''#eeeeee''
      | Some n \<Rightarrow>
          if n = ''lan'' then Ret ''#90f090''
          else if n = ''wan'' then Ret ''#f09090''
          else derive_color n)"

definition getZoneColorStyle :: "string option \<Rightarrow> string jsret" where
  "getZoneColorStyle zone =
     jbind (getColorForName (if zone = Some ''*'' then None else zone)) (\<lambda>hex.
       format ''--zone-color-rgb:%d, %d, %d; background-color:rgb(var(--zone-color-rgb))''
         [PNum (parseInt (take 2 (drop 1 hex)) 16), PNum (parseInt (take 2 (drop 3 hex)) 16),
          PNum (parseInt (take 2 (drop 5 hex)) 16)])"

end
