(* ===== verification/FirewallLaws.thy ===== *)
theory FirewallLaws
  imports Firewall
begin

text \<open>
  Laws of the firewall objects: the network lists of zones, deleting and renaming zones with the rules
  that refer to them, policies, and the operations that cannot work as written.
\<close>

section \<open>Network lists\<close>

lemma plain_fw_opts: "plain_opt ''network''" "plain_opt ''name''" "plain_opt ''src''" "plain_opt ''dest''"
  "plain_opt ''input''" "plain_opt ''output''" "plain_opt ''forward''"
  by (simp_all add: plain_opt_def)

lemma writable_get_section: "writable (snd (get_section conf sid0 st)) c i = writable st c i"
  by (cases rule: get_section_cases [of conf sid0 st]) (auto simp: writable_def)

lemma toArray_UList [simp]: "toArray (Some (UList l)) = l"
  by (simp add: toArray_def)

lemma toArray_None [simp]: "toArray None = []"
  by (simp add: toArray_def)

lemma push_shared_cases:
  obtains "push_shared conf sid opt x st = st"
  | s l where "oget2 (st_values st) conf sid = Some s" "oget2 (creates st) conf sid = None"
      "push_shared conf sid opt x st =
        st\<lparr>st_values := oset2 conf sid (s\<lparr>s_opts := oset opt (UList (l @ [x])) (s_opts s)\<rparr>) (st_values st)\<rparr>"
proof (cases "oget2 (st_values st) conf sid")
  case None
  then have "push_shared conf sid opt x st = st" by (simp add: push_shared_def)
  then show ?thesis by (rule that(1))
next
  case (Some s)
  show ?thesis
  proof (cases "\<exists>l. oget (s_opts s) opt = Some (UList l) \<and> oget2 (creates st) conf sid = None \<and>
      Option.bind (oget2 (changes st) conf sid) (\<lambda>c. oget c opt) = None \<and> uci_get conf (Some sid) opt st = Some (UList l)")
    case True
    then obtain l where "oget (s_opts s) opt = Some (UList l)" "oget2 (creates st) conf sid = None"
      "Option.bind (oget2 (changes st) conf sid) (\<lambda>c. oget c opt) = None" "uci_get conf (Some sid) opt st = Some (UList l)"
      by blast
    then show ?thesis using Some by (intro that(2) [of s l]) (simp_all add: push_shared_def)
  next
    case False
    then have "push_shared conf sid opt x st = st"
      using Some by (auto simp: push_shared_def split: option.split uval.split)
    then show ?thesis by (rule that(1))
  qed
qed

lemma push_shared_wf:
  assumes wf: "uci_wf st" and "plain_opt opt"
  shows "uci_wf (push_shared conf sid opt x st)"
proof (cases rule: push_shared_cases [of conf sid opt x st])
  case (2 s l)
  let ?s = "s\<lparr>s_opts := oset opt (UList (l @ [x])) (s_opts s)\<rparr>"
  let ?st = "st\<lparr>st_values := oset2 conf sid ?s (st_values st)\<rparr>"
  have "sec_wf sid s" "plain_sid sid" using 2(1) uci_wfD(1) [OF wf] by (auto simp: store_wf_def)
  then have "store_wf (oset2 conf sid ?s (st_values st))"
    using wf assms(2) by (simp add: store_wf_oset2 sec_wf_oset uci_wfD)
  moreover have "pending_wf ?st"
  proof (rule pending_wf_upd [OF uci_wfD(5) [OF wf], of _ conf sid])
    show "pend_ok (oget2 (st_values ?st) conf sid) (oget2 (changes ?st) conf sid) (oget2 (deletes ?st) conf sid)"
      using pending_wf_at [OF uci_wfD(5) [OF wf], of conf sid] 2(1) by (simp add: pend_ok_def)
  qed (simp add: if_not_P del: de_Morgan_conj)
  ultimately show ?thesis using wf 2(3) by (simp add: uci_wf_def)
qed (use wf in simp)

lemma push_shared_get:
  assumes "plain_sid i" "plain_opt k" "\<not> (c = conf \<and> i = sid \<and> k = opt)"
  shows "uci_get c (Some i) k (push_shared conf sid opt x st) = uci_get c (Some i) k st"
proof (cases rule: push_shared_cases [of conf sid opt x st])
  case (2 s l)
  show ?thesis
  proof (cases "c = conf \<and> i = sid")
    case True
    with assms have "k \<noteq> opt" by simp
    then have "eff None d ch (Some (s\<lparr>s_opts := oset opt (UList (l @ [x])) (s_opts s)\<rparr>)) k = eff None d ch (Some s) k" for d ch
      using assms(2) by (simp add: eff_def sec_prop_plain cong: option.case_cong)
    with True 2 assms(1) show ?thesis by (simp add: uci_get_eff)
  next
    case False
    with 2 assms(1) show ?thesis by (auto simp: uci_get_eff simp del: de_Morgan_conj)
  qed
qed simp

lemma push_shared_writable: "writable (push_shared conf sid opt x st) c i = writable st c i"
  by (cases rule: push_shared_cases [of conf sid opt x st]) (auto simp: writable_def)

section \<open>Removing sections\<close>

text \<open>The sections that remain after a removal are sections that were there, other than the removed one.\<close>

definition same_section :: "uci_section \<Rightarrow> uci_section \<Rightarrow> bool" where
  "same_section a b \<longleftrightarrow> s_name a = s_name b \<and> s_type a = s_type b \<and> s_opts a = s_opts b"

lemma reindex_same: "x \<in> set (reindex i ss) \<Longrightarrow> \<exists>y \<in> set ss. same_section x y"
  by (induction i ss rule: reindex.induct) (auto simp: same_section_def)

lemma reindex_same_back: "y \<in> set ss \<Longrightarrow> \<exists>x \<in> set (reindex i ss). same_section x y"
  by (induction i ss rule: reindex.induct) (auto simp: same_section_def)

lemma odel_other_keys: "filter (\<lambda>(k, x). k \<noteq> i \<and> P k x) m = filter (\<lambda>(k, x). P k x) (odel i m)"
  by (induction m) (auto simp: odel_def)

lemma raw_after_remove:
  assumes wf: "uci_wf st" and dj: "disjoint_new st"
    and x: "x \<in> set (sections_raw conf ty (uci_remove conf i st) v)" and v: "oget (st_values st) conf = Some v"
  shows "x \<in> set (sections_raw conf ty st v) \<and> s_name x \<noteq> i"
proof -
  have ms: "store_wf (st_values st)" "store_wf (creates st)" using wf by (simp_all add: uci_wfD)
  consider (new) s where "oget2 (creates st) conf i = Some s" "oget2 (st_values st) conf i = None"
    | (base) s where "oget2 (creates st) conf i = None" "oget2 (st_values st) conf i = Some s"
    | (none) "oget2 (creates st) conf i = None" "oget2 (st_values st) conf i = None"
    using dj by (metis disjoint_new_def option.exhaust)
  then show ?thesis
  proof cases
    case new
    then obtain n where n: "oget (creates st) conf = Some n" by (auto simp: oget2_def bind_eq_Some_conv)
    have r: "uci_remove conf i st = st\<lparr>creates := oset conf (odel i n) (creates st)\<rparr>"
      using new n by (simp add: uci_remove_def odel2_def)
    have nb: "s_name s \<noteq> i" if "(k, s) \<in> set v" for k s
      using that new(2) entry_in [OF ms(1) v that] by auto
    have nn: "s_name s \<noteq> i" if "(k, s) \<in> set (odel i n)" for k s
      using that entry_in(2) [OF ms(2) n] by (auto simp: odel_def)
    show ?thesis
      using x unfolding r by (auto simp: sections_raw_def n odel_def dest: nb nn [unfolded odel_def, simplified, OF conjI])
  next
    case base
    let ?st = "uci_remove conf i st"
    have r: "?st = st\<lparr>changes := odel2 conf i (changes st), deletes := oset2 conf i DelAll (deletes st)\<rparr>"
      using base by (simp add: uci_remove_def)
    have mc: "merge_changes (oget (changes ?st) conf) k s = merge_changes (oget (changes st) conf) k s" if "k \<noteq> i" for k s
    proof -
      have "Option.bind (oget (changes ?st) conf) (\<lambda>m. oget m k) = Option.bind (oget (changes st) conf) (\<lambda>m. oget m k)"
        using that oget2_odel2 [of conf i "changes st" conf k] by (simp add: r oget2_def)
      then show ?thesis by (simp add: merge_changes_def)
    qed
    have nc: "i \<noteq> s_name s" if "oget (creates st) conf = Some n" "(k, s) \<in> set n" for n k s
      using that base(1) entry_in [OF ms(2)] by auto
    have c: "creates ?st = creates st" by (simp add: r)
    from x consider k s where "(k, s) \<in> set v" "oget2 (deletes ?st) conf k \<noteq> Some DelAll" "type_matches ty s"
        "x = merge_changes (oget (changes ?st) conf) k s"
      | n k s where "oget (creates st) conf = Some n" "(k, s) \<in> set n" "type_matches ty s" "x = s"
      by (cases "oget (creates st) conf") (auto simp: sections_raw_def c)
    then show ?thesis
    proof cases
      case (1 k s)
      then have k: "k \<noteq> i" "oget2 (deletes st) conf k \<noteq> Some DelAll" by (auto simp: r split: if_splits)
      have "s_name x = k" using 1 entry_in(2) [OF ms(1) v] by simp
      moreover have "x \<in> set (sections_raw conf ty st v)"
        using 1 k mc [OF k(1), of s] by (force simp: sections_raw_def)
      ultimately show ?thesis using k(1) by simp
    next
      case (2 n k s)
      then show ?thesis using nc [OF 2(1,2)] by (force simp: sections_raw_def)
    qed
  next
    case none
    have r: "uci_remove conf i st = st" using none by (simp add: uci_remove_def)
    have "s_name x \<noteq> i" if "x \<in> set (sections_raw conf ty st v)"
    proof
      assume "s_name x = i"
      from that consider k s where "(k, s) \<in> set v" "s_name x = s_name s"
        | n k where "oget (creates st) conf = Some n" "(k, x) \<in> set n"
        by (cases "oget (creates st) conf") (auto simp: sections_raw_def)
      then show False
        using \<open>s_name x = i\<close> none entry_in [OF ms(1) v] entry_in [OF ms(2)] by cases auto
    qed
    with x r show ?thesis by simp
  qed
qed

lemma remove_keeps:
  assumes "uci_wf st" "disjoint_new st"
  shows "uci_wf (uci_remove conf i st)" "disjoint_new (uci_remove conf i st)"
    "st_values (uci_remove conf i st) = st_values st"
proof -
  show "uci_wf (uci_remove conf i st)" using assms(1) by (rule uci_remove_wf)
  show "disjoint_new (uci_remove conf i st)"
    using assms(2) by (auto simp: disjoint_new_def uci_remove_def)
  show "st_values (uci_remove conf i st) = st_values st" by (simp add: uci_remove_def)
qed

lemma sections_after_remove:
  assumes "uci_wf st" "disjoint_new st" "x \<in> set (uci_sections conf ty (uci_remove conf i st))"
  shows "\<exists>y \<in> set (uci_sections conf ty st). same_section x y \<and> s_name y \<noteq> i"
proof (cases "oget (st_values st) conf")
  case None
  then show ?thesis using assms(3) by (simp add: uci_sections_def remove_keeps [OF assms(1,2)])
next
  case (Some v)
  from assms(3) obtain y where y: "y \<in> set (sections_raw conf ty (uci_remove conf i st) v)" "same_section x y"
    using reindex_same by (fastforce simp: uci_sections_def remove_keeps [OF assms(1,2)] Some)
  from raw_after_remove [OF assms(1,2) y(1) Some] have "y \<in> set (sections_raw conf ty st v)" "s_name y \<noteq> i"
    by simp_all
  moreover from this(1) obtain z where "z \<in> set (uci_sections conf ty st)" "same_section z y"
    using reindex_same_back [of y "sort_key s_index (sections_raw conf ty st v)" 0] by (auto simp: uci_sections_def Some)
  ultimately show ?thesis using y(2) by (intro bexI [of _ z]) (auto simp: same_section_def)
qed

lemma remove_all:
  assumes "uci_wf st" "disjoint_new st"
  shows "uci_wf (fold (uci_remove conf) ns st) \<and> disjoint_new (fold (uci_remove conf) ns st) \<and>
    (\<forall>x \<in> set (uci_sections conf ty (fold (uci_remove conf) ns st)).
       \<exists>y \<in> set (uci_sections conf ty st). same_section x y \<and> s_name y \<notin> set ns) \<and>
    (\<forall>c i k. plain_sid i \<longrightarrow> (\<forall>n \<in> set ns. plain_sid n) \<longrightarrow> \<not> (c = conf \<and> i \<in> set ns) \<longrightarrow>
       uci_get c (Some i) k (fold (uci_remove conf) ns st) = uci_get c (Some i) k st)"
  using assms
proof (induction ns arbitrary: st)
  case Nil
  then show ?case by (auto simp: same_section_def)
next
  case (Cons n ns)
  let ?st = "uci_remove conf n st"
  note ih = Cons.IH [OF remove_keeps(1,2) [OF Cons.prems], of conf n]
  have "\<exists>y \<in> set (uci_sections conf ty st). same_section x y \<and> s_name y \<notin> set (n # ns)"
    if "x \<in> set (uci_sections conf ty (fold (uci_remove conf) ns ?st))" for x
  proof -
    from ih that obtain y where y: "y \<in> set (uci_sections conf ty ?st)" "same_section x y" "s_name y \<notin> set ns" by blast
    from sections_after_remove [OF Cons.prems y(1)] obtain z where
      "z \<in> set (uci_sections conf ty st)" "same_section y z" "s_name z \<noteq> n" by blast
    with y show ?thesis by (auto simp: same_section_def intro!: bexI [of _ z])
  qed
  moreover have "uci_get c (Some i) k (fold (uci_remove conf) ns ?st) = uci_get c (Some i) k st"
    if "plain_sid i" "\<forall>m \<in> set (n # ns). plain_sid m" "\<not> (c = conf \<and> i \<in> set (n # ns))" for c i k
  proof -
    have "uci_get c (Some i) k (fold (uci_remove conf) ns ?st) = uci_get c (Some i) k ?st"
      using ih that by auto
    also have "\<dots> = uci_get c (Some i) k st"
      using get_after_remove [OF Cons.prems, of n i c k conf] that by auto
    finally show ?thesis .
  qed
  ultimately show ?case using ih by simp
qed

lemma disjoint_get_section: "disjoint_new st \<Longrightarrow> disjoint_new (snd (get_section conf sid0 st))"
proof (cases rule: get_section_cases [of conf sid0 st])
  case (3 sid s)
  then show "disjoint_new st \<Longrightarrow> disjoint_new (snd (get_section conf sid0 st))"
    by (simp add: disjoint_new_def)
qed simp_all

lemma fold_filter_remove:
  "fold (\<lambda>s. if P s then fw_remove (s_name s) else id) ss st =
     fold (uci_remove ''firewall'') (map s_name (filter P ss)) st"
  by (induction ss arbitrary: st) (simp_all add: fw_remove_def)

lemma fold_remove_names: "fold (\<lambda>s. fw_remove (s_name s)) ss st = fold (uci_remove ''firewall'') (map s_name ss) st"
  by (induction ss arbitrary: st) (simp_all add: fw_remove_def)

lemma no_references_left:
  assumes "uci_wf st" "disjoint_new st" "x \<in> set (uci_sections ''firewall'' None (remove_references name st))"
  shows "\<not> references name x"
proof
  assume r: "references name x"
  let ?hits = "map s_name (filter (references name) (uci_sections ''firewall'' None st))"
  obtain y where y: "y \<in> set (uci_sections ''firewall'' None st)" "same_section x y" "s_name y \<notin> set ?hits"
    using remove_all [OF assms(1,2), of "''firewall''" ?hits None] assms(3)
    by (auto simp: remove_references_def fold_filter_remove)
  have "references name y" using r y(2) by (simp add: references_def is_policy_type_def same_section_def)
  with y show False by auto
qed

section \<open>Loops without end\<close>

lemma newZone_name_None: "newZone_name fetch st name cnt = None"
proof (cases "newZone_name fetch st name cnt")
  case (Some y)
  have False
    by (rule newZone_name.raw_induct [OF _ Some, of "\<lambda>_ _ _ _ _. False"]) (simp add: promise_is_null_def)
  then show ?thesis ..
qed simp

section \<open>Renaming\<close>

lemma fw_set_uc: "fw_set sid opt v st = uci_set ''firewall'' (Some sid) (Some opt) v st"
  by (simp add: fw_set_def)

definition section_ok :: "uci \<Rightarrow> string \<Rightarrow> bool" where
  "section_ok st i \<longleftrightarrow> plain_sid i \<and> writable st ''firewall'' i"

lemma fw_set_get:
  assumes "uci_wf st" "section_ok st sid" "plain_opt opt" "v \<noteq> Some (UStr [])" "plain_sid i" "plain_opt k"
  shows "uci_get c (Some i) k (fw_set sid opt v st) =
    (if c = ''firewall'' \<and> i = sid \<and> k = opt then v else uci_get c (Some i) k st)"
  unfolding fw_set_uc using assms by (intro uc.get_put) (auto simp: section_ok_def)

lemma fw_set_keeps: "uci_wf st \<Longrightarrow> uci_wf (fw_set sid opt v st)" "section_ok (fw_set sid opt v st) i = section_ok st i"
  by (simp_all add: fw_set_uc uci_set_wf section_ok_def writable_set)

definition renamed :: "string \<Rightarrow> string \<Rightarrow> uval option \<Rightarrow> uval option" where
  "renamed old new v = (if loose_eq v (Some (UStr old)) then Some (UStr new) else v)"

lemma rename_reference_get:
  assumes "uci_wf st" "section_ok st (s_name s)" "new \<noteq> []" "plain_sid i" "plain_opt k"
  shows "uci_get c (Some i) k (rename_reference old new s st) =
    (if c = ''firewall'' \<and> i = s_name s \<and> is_policy_type s \<and> k \<in> {''src'', ''dest''} \<and>
        loose_eq (oget (s_opts s) k) (Some (UStr old))
     then Some (UStr new) else uci_get c (Some i) k st)"
proof -
  have "plain_sid (s_name s)" using assms(2) by (simp add: section_ok_def)
  then show ?thesis
    unfolding rename_reference_def using assms
    by (simp add: Let_def fw_set_get fw_set_keeps plain_fw_opts) blast
qed

lemma rename_reference_keeps:
  assumes "uci_wf st"
  shows "uci_wf (rename_reference old new s st)" "section_ok (rename_reference old new s st) i = section_ok st i"
  using assms by (simp_all add: rename_reference_def Let_def fw_set_keeps)

lemma rename_all_get:
  assumes "uci_wf st" "\<forall>s \<in> set ss. section_ok st (s_name s)" "new \<noteq> []" "plain_sid i" "plain_opt k"
  shows "uci_get c (Some i) k (fold (rename_reference old new) ss st) =
    (if c = ''firewall'' \<and> k \<in> {''src'', ''dest''} \<and>
        (\<exists>s \<in> set ss. s_name s = i \<and> is_policy_type s \<and> loose_eq (oget (s_opts s) k) (Some (UStr old)))
     then Some (UStr new) else uci_get c (Some i) k st)"
  using assms(1,2)
proof (induction ss arbitrary: st)
  case (Cons s ss)
  have "uci_get c (Some i) k (fold (rename_reference old new) ss (rename_reference old new s st)) =
    (if c = ''firewall'' \<and> k \<in> {''src'', ''dest''} \<and>
        (\<exists>s \<in> set ss. s_name s = i \<and> is_policy_type s \<and> loose_eq (oget (s_opts s) k) (Some (UStr old)))
     then Some (UStr new) else uci_get c (Some i) k (rename_reference old new s st))"
    by (rule Cons.IH) (use Cons.prems rename_reference_keeps in auto)
  moreover have "section_ok st (s_name s)" using Cons.prems by simp
  ultimately show ?case
    using rename_reference_get [OF Cons.prems(1) _ assms(3-5), of s c old] by auto
qed simp

section \<open>Properties\<close>

text \<open>
  C25.  Adding a network to a zone appends it to the zone's list and removing one filters it out; no other
  option of any section of any package changes, although the array is changed in place in the cache.
\<close>

theorem zone_networks_updated:
  assumes "uci_wf st" "section_ok st z" "plain_sid i" "plain_opt k" "\<not> (c = ''firewall'' \<and> i = z \<and> k = ''network'')"
  shows "getNetworks (Some z) (snd (zone_deleteNetwork (Some z) net st)) = filter (\<lambda>n. n \<noteq> net) (getNetworks (Some z) st) \<and>
    uci_get c (Some i) k (snd (zone_deleteNetwork (Some z) net st)) = uci_get c (Some i) k st \<and>
    (fst (zone_addNetwork (Some z) net st) \<longrightarrow>
       getNetworks (Some z) (snd (zone_addNetwork (Some z) net st)) = getNetworks (Some z) st @ [net] \<and>
       uci_get c (Some i) k (snd (zone_addNetwork (Some z) net st)) = uci_get c (Some i) k st)"
proof -
  have p: "plain_sid z" using assms(2) by (simp add: section_ok_def)
  have s: "item_set (Some z) ''network'' v st' = fw_set z ''network'' v st'" for v st' by (simp add: item_set_def fw_set_def)
  have 1: "getNetworks (Some z) (snd (zone_deleteNetwork (Some z) net st)) = filter (\<lambda>n. n \<noteq> net) (getNetworks (Some z) st) \<and>
    uci_get c (Some i) k (snd (zone_deleteNetwork (Some z) net st)) = uci_get c (Some i) k st"
    using assms p by (auto simp: zone_deleteNetwork_def Let_def s getNetworks_def item_get_def fw_set_get plain_fw_opts)
  have 2: "getNetworks (Some z) (snd (zone_addNetwork (Some z) net st)) = getNetworks (Some z) st @ [net] \<and>
       uci_get c (Some i) k (snd (zone_addNetwork (Some z) net st)) = uci_get c (Some i) k st"
    if f: "fst (zone_addNetwork (Some z) net st)"
  proof -
    define st1 where "st1 = snd (get_section ''network'' (Some net) st)"
    define st2 where "st2 = push_shared ''firewall'' z ''network'' net st1"
    have g: "getNetworks (Some z) st1 = getNetworks (Some z) st"
      using get_after_get_section [OF assms(1) p plain_fw_opts(1), of "''firewall''" "''network''"]
      by (simp add: getNetworks_def item_get_def st1_def)
    have r: "snd (zone_addNetwork (Some z) net st) = fw_set z ''network'' (Some (UList (getNetworks (Some z) st @ [net]))) st2"
      using f p g unfolding zone_addNetwork_def st2_def st1_def
      by (simp add: split_beta Let_def s split: if_splits)
    have w1: "uci_wf st1" "section_ok st1 z"
      using assms(1,2) by (simp_all add: st1_def get_section_wf section_ok_def writable_get_section)
    have w2: "uci_wf st2" "section_ok st2 z"
      using w1 by (simp_all add: st2_def push_shared_wf plain_fw_opts section_ok_def push_shared_writable)
    have "uci_get c (Some i) k st2 = uci_get c (Some i) k st1"
      unfolding st2_def using assms(3-5) by (rule push_shared_get)
    also have "\<dots> = uci_get c (Some i) k st" unfolding st1_def by (rule get_after_get_section [OF assms(1,3,4)])
    finally have e: "uci_get c (Some i) k st2 = uci_get c (Some i) k st" .
    show ?thesis unfolding r
      using assms(3-5) w2 p e by (auto simp: getNetworks_def item_get_def fw_set_get plain_fw_opts)
  qed
  from 1 2 show ?thesis by blast
qed


definition fw_sample :: uci where
  "fw_sample = sample\<lparr>st_values := [(''firewall'', [
       (''z1'', sample_section ''zone'' ''z1'' 0 [(''name'', UStr ''lan''), (''network'', UList [''lan''])]),
       (''r1'', sample_section ''rule'' ''r1'' 1 [(''src'', UStr ''lan''), (''target'', UStr ''ACCEPT'')]),
       (''r2'', sample_section ''rule'' ''r2'' 2 [(''src'', UStr ''wan'')])])],
     creates := [], changes := [], deletes := []\<rparr>"

lemma fw_sample_lookups:
  "oget2 (st_values fw_sample) conf sid =
     (if conf = ''firewall'' \<and> sid = ''z1'' then
        Some (sample_section ''zone'' ''z1'' 0 [(''name'', UStr ''lan''), (''network'', UList [''lan''])])
      else if conf = ''firewall'' \<and> sid = ''r1'' then
        Some (sample_section ''rule'' ''r1'' 1 [(''src'', UStr ''lan''), (''target'', UStr ''ACCEPT'')])
      else if conf = ''firewall'' \<and> sid = ''r2'' then Some (sample_section ''rule'' ''r2'' 2 [(''src'', UStr ''wan'')])
      else None)"
  by (auto simp: fw_sample_def oget2_def oget_def)

lemma fw_sample_wf: "uci_wf fw_sample" "disjoint_new fw_sample"
proof -
  have "owf2 (st_values fw_sample)" by (simp add: fw_sample_def owf2_def owf_def oget_def)
  moreover have "plain_sid ''z1''" "plain_sid ''r1''" "plain_sid ''r2''" "plain_opt ''target''"
    by (simp_all add: plain_sid_def plain_opt_def)
  ultimately have "store_wf (st_values fw_sample)"
    by (auto simp: store_wf_def fw_sample_lookups sec_wf_def sample_section_def owf_def okeys_def plain_fw_opts split: if_splits)
  then show "uci_wf fw_sample"
    by (simp add: uci_wf_def fw_sample_def store_wf_def changes_wf_def deletes_wf_def pending_wf_def pend_ok_def)
  show "disjoint_new fw_sample" by (simp add: disjoint_new_def fw_sample_def)
qed

lemma fw_sample_ok: "section_ok fw_sample ''z1''" "section_ok fw_sample ''r1''"
  by (simp_all add: section_ok_def plain_sid_def writable_def fw_sample_lookups) (simp_all add: fw_sample_def)

lemma fw_sample_loaded: "initFirewallState fetch fw_sample = fw_sample"
  by (simp add: initFirewallState_def uci_load_def fw_sample_def oget_def)

theorem zone_networks_updated_witness:
  "getNetworks (Some ''z1'') (snd (zone_deleteNetwork (Some ''z1'') ''lan'' fw_sample)) = []"
  using zone_networks_updated [OF fw_sample_wf(1) fw_sample_ok(1), of "''r1''" "''src''" "''firewall''" "''lan''"]
  by (simp add: plain_fw_opts plain_sid_def getNetworks_def item_get_def uci_get_eff eff_def fw_sample_lookups)
    (simp add: fw_sample_def sample_section_def sec_prop_def oget_def)


lemma sections_section_ok:
  assumes "uci_wf st" "s \<in> set (uci_sections ''firewall'' None st)"
  shows "section_ok st (s_name s)"
proof (cases "oget (st_values st) ''firewall''")
  case None
  then show ?thesis using assms(2) by (simp add: uci_sections_def)
next
  case (Some v)
  have "s_name s \<in> set (map s_name (uci_sections ''firewall'' None st))" using assms(2) by simp
  then have "s_name s \<in> set (eff_names ''firewall'' st)"
    using sections_name_set [OF assms(1) Some] by (metis set_mset_mset)
  then have w: "writable st ''firewall'' (s_name s)" using eff_names_iff [OF Some] by (simp add: writable_def)
  then have "plain_sid (s_name s)"
    using assms(1) by (auto simp: writable_def uci_wf_def store_wf_def)
  with w show ?thesis by (simp add: section_ok_def)
qed

text \<open>
  C15.  Renaming a zone rewrites the source and destination of exactly the rules, redirects and forwardings
  that named the old zone; every other source and destination stays.
\<close>

theorem rename_updates_references:
  assumes "uci_wf st" "disjoint_new st" "new \<noteq> []" "s \<in> set (uci_sections ''firewall'' None st)" "k \<in> {''src'', ''dest''}"
  shows "uci_get ''firewall'' (Some (s_name s)) k (rename_references old new st) =
    (if is_policy_type s \<and> loose_eq (oget (s_opts s) k) (Some (UStr old)) then Some (UStr new)
     else uci_get ''firewall'' (Some (s_name s)) k st)"
proof -
  let ?ss = "uci_sections ''firewall'' None st"
  have ok: "\<forall>x \<in> set ?ss. section_ok st (s_name x)" using sections_section_ok [OF assms(1)] by blast
  have p: "plain_sid (s_name s)" "plain_opt k"
    using ok assms(4,5) by (auto simp: section_ok_def plain_fw_opts)
  have "x = s" if "x \<in> set ?ss" "s_name x = s_name s" for x
    using sections_distinct [OF assms(1,2), of "''firewall''"] that assms(4) by (auto simp: distinct_map inj_on_def)
  then have "(\<exists>x \<in> set ?ss. s_name x = s_name s \<and> is_policy_type x \<and> loose_eq (oget (s_opts x) k) (Some (UStr old))) \<longleftrightarrow>
      is_policy_type s \<and> loose_eq (oget (s_opts s) k) (Some (UStr old))"
    using assms(4) by blast
  then show ?thesis
    unfolding rename_references_def using rename_all_get [OF assms(1) ok assms(3) p, of "''firewall''" old] assms(5) by simp
qed

theorem rename_updates_references_witness:
  "uci_get ''firewall'' (Some ''r1'') ''src'' (rename_references ''lan'' ''home'' fw_sample) = Some (UStr ''home'')"
proof -
  let ?s = "sample_section ''rule'' ''r1'' 1 [(''src'', UStr ''lan''), (''target'', UStr ''ACCEPT'')]"
  have "?s \<in> set (uci_sections ''firewall'' None fw_sample)" by code_simp
  from rename_updates_references [OF fw_sample_wf _ this, of "''home''" "''src''" "''lan''"] show ?thesis
    by (simp add: sample_section_def is_policy_type_def oget_def loose_eq_def)
qed


text \<open>
  A parsed policy is one of DROP, REJECT and ACCEPT or the given default, and it is the first of the
  three that starts with the given text in any letter case.
\<close>

theorem parsePolicy_sound:
  "case parsePolicy s d of
     Some p \<Rightarrow> d = Some p \<or> (p \<in> {''DROP'', ''REJECT'', ''ACCEPT''} \<and>
       (\<exists>v. s = Some v \<and> ustr v \<noteq> [] \<and> take (length (ustr v)) p = map to_upper (ustr v)))
   | None \<Rightarrow> d = None"
  by (auto simp: parsePolicy_def parseEnum_def Let_def to_upper_def is_lower_def code_def split: option.split)

end
