(* ===== verification/Validation.thy ===== *)
theory Validation
  imports CbiLaws
begin

text \<open>
  The field validator of \<open>validation.js\<close>: the parser of datatype expressions, the number and address
  parsers and the datatypes.  A datatype runs on a context: the validator's \<open>value\<close> and \<open>error\<close>
  and the state of the field it marks.  Datatypes that call others pass the context on, so a value
  that \<open>apply\<close> replaces stays replaced, as in the code.  Messages are the untranslated ones.
\<close>

section \<open>Context\<close>

text \<open>\<open>v_siblings\<close> are the other fields that \<open>unique\<close> compares with: their value and whether they are
  lists, \<^const>\<open>None\<close> for one without an input.\<close>

record vctx =
  v_value :: string
  v_error :: "string option"
  v_invalid :: bool
  v_islist :: bool
  v_tooltip :: "string option"
  v_events :: "string list"
  v_siblings :: "(string \<times> bool) option list"

text \<open>An argument of a datatype.\<close>

datatype tok = TNum jsnum | TStr string | TFun string | TNull | TArgs "tok list"

type_synonym outcome = "(bool \<times> vctx) jsret"

definition bytelen :: "string \<Rightarrow> nat" where
  "bytelen x = length (concat (map unit_bytes (map code x)))"

definition assert :: "bool \<Rightarrow> string option \<Rightarrow> vctx \<Rightarrow> bool \<times> vctx" where
  "assert condition message c =
     (if \<not> condition then (False, c\<lparr>v_invalid := True, v_error := message\<rparr>)
      else (True, c\<lparr>v_invalid := False, v_error := None\<rparr>))"

definition asserts :: "bool \<Rightarrow> string \<Rightarrow> vctx \<Rightarrow> bool \<times> vctx" where
  "asserts condition message c = assert condition (Some message) c"

text \<open>\<open>apply(name, value, args)\<close> on a datatype: the value is replaced when one is given.\<close>

definition with_value :: "string \<Rightarrow> vctx \<Rightarrow> vctx" where
  "with_value v c = c\<lparr>v_value := v\<rparr>"

text \<open>\<open>a || b\<close> and \<open>a && b\<close> on datatype calls.\<close>

definition or_else :: "(vctx \<Rightarrow> bool \<times> vctx) \<Rightarrow> (vctx \<Rightarrow> bool \<times> vctx) \<Rightarrow> vctx \<Rightarrow> bool \<times> vctx" where
  "or_else f g c = (let (b, c1) = f c in if b then (True, c1) else g c1)"

definition and_then :: "(vctx \<Rightarrow> bool \<times> vctx) \<Rightarrow> (vctx \<Rightarrow> bool \<times> vctx) \<Rightarrow> vctx \<Rightarrow> bool \<times> vctx" where
  "and_then f g c = (let (b, c1) = f c in if b then g c1 else (False, c1))"

definition pure :: "bool \<Rightarrow> vctx \<Rightarrow> bool \<times> vctx" where
  "pure b c = (b, c)"

text \<open>\<open>this.assert(<call>, message)\<close>\<close>

definition checked :: "(vctx \<Rightarrow> bool \<times> vctx) \<Rightarrow> string \<Rightarrow> vctx \<Rightarrow> bool \<times> vctx" where
  "checked f message c = (let (b, c1) = f c in asserts b message c1)"

section \<open>Arguments\<close>

definition tok_truthy :: "tok option \<Rightarrow> bool" where
  "tok_truthy t =
     (case t of
        None \<Rightarrow> False
      | Some (TNum x) \<Rightarrow> x \<noteq> NaN \<and> x \<noteq> Fin 0
      | Some (TStr s) \<Rightarrow> s \<noteq> []
      | Some TNull \<Rightarrow> False
      | Some _ \<Rightarrow> True)"

definition tok_num :: "tok option \<Rightarrow> jsnum" where
  "tok_num t =
     (case t of
        Some (TNum x) \<Rightarrow> x
      | Some (TStr s) \<Rightarrow> to_number s
      | Some TNull \<Rightarrow> Fin 0
      | Some (TArgs []) \<Rightarrow> Fin 0
      | Some (TArgs [TNum x]) \<Rightarrow> x
      | Some (TArgs [TStr s]) \<Rightarrow> to_number s
      | Some (TArgs [TNull]) \<Rightarrow> Fin 0
      | _ \<Rightarrow> NaN)"

text \<open>\<open>t == 1\<close>\<close>

definition tok_is_one :: "tok option \<Rightarrow> bool" where
  "tok_is_one t = (case t of None \<Rightarrow> False | Some TNull \<Rightarrow> False | _ \<Rightarrow> num_eq (tok_num t) (Fin 1))"

definition tok_param :: "tok option \<Rightarrow> fparam" where
  "tok_param t =
     (case t of
        None \<Rightarrow> PUndef
      | Some (TNum x) \<Rightarrow> PNum x
      | Some (TStr s) \<Rightarrow> PStr s
      | Some TNull \<Rightarrow> PNull
      | Some (TFun f) \<Rightarrow> PObj f
      | Some (TArgs _) \<Rightarrow> PObj [])"

definition arg :: "tok list \<Rightarrow> nat \<Rightarrow> tok option" where
  "arg args i = (if i < length args then Some (args ! i) else None)"

text \<open>\<open>_(m).format(args)\<close>; a message whose formatting throws does not occur.\<close>

definition message :: "string \<Rightarrow> fparam list \<Rightarrow> string" where
  "message m args = (case format m args of Ret s \<Rightarrow> s | _ \<Rightarrow> m)"

section \<open>Parsers\<close>

definition digits :: rexp where
  "digits = RPlus (RChr is_digit)"

text \<open>\<open>/^-?\d+$/\<close> and \<open>/^-?\d+(?:\.\d+)?$/\<close>\<close>

definition integer_re :: rexp where
  "integer_re = RCat [ROpt (RLit CHR ''-''), digits, REnd]"

definition decimal_re :: rexp where
  "decimal_re = RCat [ROpt (RLit CHR ''-''), digits, ROpt (RSeq (RLit CHR ''.'') digits), REnd]"

definition parseInteger :: "string \<Rightarrow> jsnum" where
  "parseInteger x = (if test integer_re x then to_number x else NaN)"

definition parseDecimal :: "string \<Rightarrow> jsnum" where
  "parseDecimal x = (if test decimal_re x then to_number x else NaN)"

text \<open>\<open>\d{1,3}\<close>\<close>

definition octet :: rexp where
  "octet = RRep (RChr is_digit) 1 2"

definition ipv4_re :: rexp where
  "ipv4_re = RCat [RGrp 1 octet, RLit CHR ''.'', RGrp 2 octet, RLit CHR ''.'', RGrp 3 octet, RLit CHR ''.'', RGrp 4 octet, REnd]"

definition parseIPv4 :: "string \<Rightarrow> nat list option" where
  "parseIPv4 x =
     (case exec ipv4_re x of
        None \<Rightarrow> None
      | Some m \<Rightarrow>
          (let gs = map (\<lambda>i. the (cap m i)) [1, 2, 3, 4]
           in if list_ex (\<lambda>g. num_less (Fin 255) (to_number g)) gs then None
              else Some (map (\<lambda>g. to_uint32 (to_number g)) gs)))"

definition hex_colon :: "char \<Rightarrow> bool" where
  "hex_colon c \<longleftrightarrow> is_hex c \<or> c = CHR '':''"

text \<open>\<open>/^([a-fA-F0-9:]+):(\d{1,3}\.\d{1,3}\.\d{1,3}\.\d{1,3})$/\<close>\<close>

definition mapped_re :: rexp where
  "mapped_re = RCat [RGrp 1 (RPlus (RChr hex_colon)), RLit CHR '':'',
     RGrp 2 (RCat [octet, RLit CHR ''.'', octet, RLit CHR ''.'', octet, RLit CHR ''.'', octet]), REnd]"

text \<open>\<open>x.split(/::/)\<close>\<close>

fun split_dcolon :: "string \<Rightarrow> string \<Rightarrow> string list" where
  "split_dcolon [] seg = [seg]"
| "split_dcolon [c] seg = [seg @ [c]]"
| "split_dcolon (c # d # s) seg =
     (if c = CHR '':'' \<and> d = CHR '':'' then seg # split_dcolon s [] else split_dcolon (d # s) (seg @ [c]))"

definition or_zero_string :: "string \<Rightarrow> string" where
  "or_zero_string s = (if s = [] then ''0'' else s)"

text \<open>The loops over the groups: all of them must be words of at most four digits.\<close>

fun parse_words :: "string list \<Rightarrow> nat list option" where
  "parse_words [] = Some []"
| "parse_words (g # gs) =
     (case parseInt g 16 of
        Fin q \<Rightarrow>
          if length g \<le> 4 \<and> q \<le> 0xFFFF
          then map_option ((#) (nat \<lfloor>q\<rfloor>)) (parse_words gs) else None
      | _ \<Rightarrow> None)"

definition parse_groups :: "string \<Rightarrow> nat list option" where
  "parse_groups x =
     (if \<not> (x \<noteq> [] \<and> list_all hex_colon x) then None
      else (let ps = split_dcolon x []
            in if length ps > 2 then None
               else (let prefix = split_on CHR '':'' (or_zero_string (ps ! 0));
                         suffix = (if length ps > 1 then split_on CHR '':'' (or_zero_string (ps ! 1)) else [])
                     in if (if suffix \<noteq> [] then length prefix + length suffix > 7
                            else (length ps < 2 \<and> length prefix < 8) \<or> length prefix > 8) then None
                        else (case (parse_words prefix, parse_words suffix) of
                                (Some a, Some b) \<Rightarrow> Some (a @ replicate (8 - length prefix - length suffix) 0 @ b)
                              | _ \<Rightarrow> None))))"

definition parseIPv6 :: "string \<Rightarrow> nat list option" where
  "parseIPv6 x =
     (case exec mapped_re x of
        Some m \<Rightarrow>
          (case parseIPv4 (the (cap m 2)) of
             Some [a, b, c, d] \<Rightarrow>
               parse_groups (the (cap m 1) @ '':'' @ hex_string (a * 256 + b) @ '':'' @ hex_string (c * 256 + d))
           | _ \<Rightarrow> None)
      | None \<Rightarrow> parse_groups x)"

section \<open>Numeric datatypes\<close>

definition t_integer :: "vctx \<Rightarrow> bool \<times> vctx" where
  "t_integer c = asserts (parseInteger (v_value c) \<noteq> NaN) ''valid integer value'' c"

definition t_uinteger :: "vctx \<Rightarrow> bool \<times> vctx" where
  "t_uinteger c = asserts (num_le (Fin 0) (parseInteger (v_value c))) ''positive integer value'' c"

definition t_float :: "vctx \<Rightarrow> bool \<times> vctx" where
  "t_float c = asserts (parseDecimal (v_value c) \<noteq> NaN) ''valid decimal value'' c"

definition t_ufloat :: "vctx \<Rightarrow> bool \<times> vctx" where
  "t_ufloat c = asserts (num_le (Fin 0) (parseDecimal (v_value c))) ''positive decimal value'' c"

definition in_range :: "jsnum \<Rightarrow> jsnum \<Rightarrow> jsnum \<Rightarrow> bool" where
  "in_range lo x hi \<longleftrightarrow> num_le lo x \<and> num_le x hi"

definition t_ip4prefix :: "vctx \<Rightarrow> bool \<times> vctx" where
  "t_ip4prefix c = asserts (in_range (Fin 0) (to_number (v_value c)) (Fin 32)) ''valid IPv4 prefix value (0-32)'' c"

definition t_ip6prefix :: "vctx \<Rightarrow> bool \<times> vctx" where
  "t_ip6prefix c = asserts (in_range (Fin 0) (to_number (v_value c)) (Fin 128)) ''valid IPv6 prefix value (0-128)'' c"

definition t_port :: "vctx \<Rightarrow> bool \<times> vctx" where
  "t_port c = asserts (in_range (Fin 0) (parseInteger (v_value c)) (Fin 65535)) ''valid port value'' c"

text \<open>\<open>/^(\d+)-(\d+)$/\<close>\<close>

definition portrange_re :: rexp where
  "portrange_re = RCat [RGrp 1 digits, RLit CHR ''-'', RGrp 2 digits, REnd]"

definition t_portrange :: "vctx \<Rightarrow> bool \<times> vctx" where
  "t_portrange c =
     (case exec portrange_re (v_value c) of
        Some m \<Rightarrow>
          (let p1 = to_number (the (cap m 1)); p2 = to_number (the (cap m 2))
           in asserts (num_le p1 p2 \<and> num_le p2 (Fin 65535)) ''valid port or port range (port1-port2)'' c)
      | None \<Rightarrow> checked t_port ''valid port or port range (port1-port2)'' c)"

definition t_range :: "tok list \<Rightarrow> vctx \<Rightarrow> bool \<times> vctx" where
  "t_range args c =
     asserts (in_range (tok_num (arg args 0)) (parseDecimal (v_value c)) (tok_num (arg args 1)))
       (message ''value between %f and %f'' [tok_param (arg args 0), tok_param (arg args 1)]) c"

definition t_min :: "tok list \<Rightarrow> vctx \<Rightarrow> bool \<times> vctx" where
  "t_min args c =
     asserts (num_le (tok_num (arg args 0)) (parseDecimal (v_value c)))
       (message ''value greater or equal to %f'' [tok_param (arg args 0)]) c"

definition t_max :: "tok list \<Rightarrow> vctx \<Rightarrow> bool \<times> vctx" where
  "t_max args c =
     asserts (num_le (parseDecimal (v_value c)) (tok_num (arg args 0)))
       (message ''value smaller or equal to %f'' [tok_param (arg args 0)]) c"

definition vlen :: "vctx \<Rightarrow> jsnum" where
  "vlen c = Fin (of_nat (bytelen (v_value c)))"

definition t_length :: "tok list \<Rightarrow> vctx \<Rightarrow> bool \<times> vctx" where
  "t_length args c =
     asserts (num_eq (vlen c) (tok_num (arg args 0))) (message ''value with %d characters'' [tok_param (arg args 0)]) c"

definition t_rangelength :: "tok list \<Rightarrow> vctx \<Rightarrow> bool \<times> vctx" where
  "t_rangelength args c =
     asserts (in_range (tok_num (arg args 0)) (vlen c) (tok_num (arg args 1)))
       (message ''value between %d and %d characters'' [tok_param (arg args 0), tok_param (arg args 1)]) c"

definition t_minlength :: "tok list \<Rightarrow> vctx \<Rightarrow> bool \<times> vctx" where
  "t_minlength args c =
     asserts (num_le (tok_num (arg args 0)) (vlen c)) (message ''value with at least %d characters'' [tok_param (arg args 0)]) c"

definition t_maxlength :: "tok list \<Rightarrow> vctx \<Rightarrow> bool \<times> vctx" where
  "t_maxlength args c =
     asserts (num_le (vlen c) (tok_num (arg args 0))) (message ''value with at most %d characters'' [tok_param (arg args 0)]) c"

section \<open>Address datatypes\<close>

text \<open>\<open>\d+\.\d+\.\d+\.\d+\<close> and \<open>\d{1,3}\.\d{1,3}\.\d{1,3}\.\d{1,3}\<close>\<close>

definition quad :: "rexp \<Rightarrow> rexp" where
  "quad d = RCat [d, RLit CHR ''.'', d, RLit CHR ''.'', d, RLit CHR ''.'', d]"

definition ip4_re :: "bool \<Rightarrow> rexp" where
  "ip4_re nomask =
     (if nomask then RSeq (RGrp 1 (quad digits)) REnd
      else RCat [RGrp 1 (quad digits),
             ROpt (RAlt (RSeq (RLit CHR ''/'') (RGrp 2 (quad digits)))
                        (RSeq (RLit CHR ''/'') (RGrp 3 (RRep (RChr is_digit) 1 1)))), REnd])"

definition addr6 :: rexp where
  "addr6 = RPlus (RChr (\<lambda>c. is_hex c \<or> c = CHR '':'' \<or> c = CHR ''.''))"

definition ip6_re :: "bool \<Rightarrow> rexp" where
  "ip6_re nomask =
     (if nomask then RSeq (RGrp 1 addr6) REnd
      else RCat [RGrp 1 addr6, ROpt (RSeq (RLit CHR ''/'') (RGrp 2 octet)), REnd])"

text \<open>A captured group that is present and not empty.\<close>

definition group :: "caps option \<Rightarrow> nat \<Rightarrow> string option" where
  "group m i = (case Option.bind m (\<lambda>x. cap x i) of Some s \<Rightarrow> if s = [] then None else Some s | None \<Rightarrow> None)"

definition t_ip4addr :: "bool \<Rightarrow> vctx \<Rightarrow> bool \<times> vctx" where
  "t_ip4addr nomask c =
     (let m = exec (ip4_re nomask) (v_value c)
      in checked
           (\<lambda>c. if m = None \<or> parseIPv4 (the (cap (the m) 1)) = None then (False, c)
                else (case group m 2 of
                        Some g \<Rightarrow> (parseIPv4 g \<noteq> None, c)
                      | None \<Rightarrow> (case group m 3 of Some g \<Rightarrow> t_ip4prefix (with_value g c) | None \<Rightarrow> (True, c))))
           (if nomask then ''valid IPv4 address'' else ''valid IPv4 address or network'') c)"

definition t_ip6addr :: "bool \<Rightarrow> vctx \<Rightarrow> bool \<times> vctx" where
  "t_ip6addr nomask c =
     (let m = exec (ip6_re nomask) (v_value c)
      in checked
           (\<lambda>c. if m = None \<or> parseIPv6 (the (cap (the m) 1)) = None then (False, c)
                else (case group m 2 of Some g \<Rightarrow> t_ip6prefix (with_value g c) | None \<Rightarrow> (True, c)))
           (if nomask then ''valid IPv6 address'' else ''valid IPv6 address or prefix'') c)"

definition t_ipaddr :: "bool \<Rightarrow> vctx \<Rightarrow> bool \<times> vctx" where
  "t_ipaddr nomask =
     checked (or_else (t_ip4addr nomask) (t_ip6addr nomask))
       (if nomask then ''valid IP address'' else ''valid IP address or prefix'')"

definition cidr4_re :: rexp where
  "cidr4_re = RCat [RGrp 1 (quad octet), RLit CHR ''/'', ROpt (RGrp 2 (RLit CHR ''-'')), RGrp 3 (RRep (RChr is_digit) 1 1), REnd]"

definition cidr6_re :: rexp where
  "cidr6_re = RCat [RGrp 1 addr6, RLit CHR ''/'', ROpt (RGrp 2 (RLit CHR ''-'')), RGrp 3 octet, REnd]"

definition t_cidr4 :: "bool \<Rightarrow> vctx \<Rightarrow> bool \<times> vctx" where
  "t_cidr4 negative c =
     (let m = exec cidr4_re (v_value c)
      in checked
           (\<lambda>c. if m = None \<or> parseIPv4 (the (cap (the m) 1)) = None \<or> \<not> (negative \<or> group m 2 = None) then (False, c)
                else t_ip4prefix (with_value (the (cap (the m) 3)) c))
           ''valid IPv4 CIDR'' c)"

definition t_cidr6 :: "bool \<Rightarrow> vctx \<Rightarrow> bool \<times> vctx" where
  "t_cidr6 negative c =
     (let m = exec cidr6_re (v_value c)
      in checked
           (\<lambda>c. if m = None \<or> parseIPv6 (the (cap (the m) 1)) = None \<or> \<not> (negative \<or> group m 2 = None) then (False, c)
                else t_ip6prefix (with_value (the (cap (the m) 3)) c))
           ''valid IPv6 CIDR'' c)"

definition t_cidr :: "bool \<Rightarrow> vctx \<Rightarrow> bool \<times> vctx" where
  "t_cidr negative = checked (or_else (t_cidr4 negative) (t_cidr6 negative)) ''valid IPv4 or IPv6 CIDR''"

definition t_ipnet4 :: "vctx \<Rightarrow> bool \<times> vctx" where
  "t_ipnet4 c =
     (let m = exec (RCat [RGrp 1 (quad octet), RLit CHR ''/'', RGrp 2 (quad octet), REnd]) (v_value c)
      in asserts (m \<noteq> None \<and> parseIPv4 (the (cap (the m) 1)) \<noteq> None \<and> parseIPv4 (the (cap (the m) 2)) \<noteq> None)
           ''IPv4 network in address/netmask notation'' c)"

definition t_ipnet6 :: "vctx \<Rightarrow> bool \<times> vctx" where
  "t_ipnet6 c =
     (let m = exec (RCat [RGrp 1 addr6, RLit CHR ''/'', RGrp 2 addr6, REnd]) (v_value c)
      in asserts (m \<noteq> None \<and> parseIPv6 (the (cap (the m) 1)) \<noteq> None \<and> parseIPv6 (the (cap (the m) 2)) \<noteq> None)
           ''IPv6 network in address/netmask notation'' c)"

definition t_ip6hostid :: "vctx \<Rightarrow> bool \<times> vctx" where
  "t_ip6hostid c =
     (if v_value c = ''eui64'' \<or> v_value c = ''random'' then (True, c)
      else asserts (case parseIPv6 (v_value c) of Some ws \<Rightarrow> take 4 ws = [0, 0, 0, 0] | None \<Rightarrow> False) ''valid IPv6 host id'' c)"

definition t_ipmask4 :: "bool \<Rightarrow> vctx \<Rightarrow> bool \<times> vctx" where
  "t_ipmask4 negative = checked (or_else (or_else (t_cidr4 negative) t_ipnet4) (t_ip4addr False)) ''valid IPv4 network''"

definition t_ipmask6 :: "bool \<Rightarrow> vctx \<Rightarrow> bool \<times> vctx" where
  "t_ipmask6 negative = checked (or_else (or_else (t_cidr6 negative) t_ipnet6) (t_ip6addr False)) ''valid IPv6 network''"

definition t_ipmask :: "bool \<Rightarrow> vctx \<Rightarrow> bool \<times> vctx" where
  "t_ipmask negative = checked (or_else (t_ipmask4 negative) (t_ipmask6 negative)) ''valid network in address/netmask notation''"

text \<open>\<open>/^([a-fA-F0-9]{2}):([a-fA-F0-9]{2}:){4}[a-fA-F0-9]{2}$/\<close>\<close>

definition hex2 :: rexp where
  "hex2 = RRep (RChr is_hex) 2 0"

definition mac_re :: rexp where
  "mac_re = RCat [RGrp 1 hex2, RLit CHR '':'', RRep (RGrp 2 (RSeq hex2 (RLit CHR '':''))) 4 0, hex2, REnd]"

definition t_macaddr :: "bool \<Rightarrow> vctx \<Rightarrow> bool \<times> vctx" where
  "t_macaddr multicast c =
     (let m = exec mac_re (v_value c)
      in asserts (m \<noteq> None \<and> (to_uint32 (to_number (the (cap (the m) 1))) mod 2 = 0) = (\<not> multicast))
           (if multicast then ''valid multicast MAC address'' else ''valid MAC address'') c)"

section \<open>Names\<close>

definition quoted :: "string \<Rightarrow> string" where
  "quoted s = [CHR 0x22] @ s @ [CHR 0x22]"

definition word_re :: rexp where
  "word_re = RSeq (RPlus (RChr is_word)) REnd"

definition alnum :: "char \<Rightarrow> bool" where
  "alnum c \<longleftrightarrow> is_digit c \<or> is_lower c \<or> is_upper c"

text \<open>\<open>/^[a-zA-Z0-9_][a-zA-Z0-9_\-.]*[a-zA-Z0-9]$/\<close>\<close>

definition host_re :: rexp where
  "host_re = RCat [RChr is_word, RStar (RChr (\<lambda>c. is_word c \<or> c = CHR ''-'' \<or> c = CHR ''.'')), RChr alnum, REnd]"

definition t_hostname :: "bool \<Rightarrow> vctx \<Rightarrow> bool \<times> vctx" where
  "t_hostname strict c =
     (let v = v_value c
      in if length v \<le> 253 then
           asserts ((test word_re v \<or> (test host_re v \<and> search (RChr (\<lambda>x. \<not> is_digit x \<and> x \<noteq> CHR ''.'')) v)) \<and>
                    (\<not> strict \<or> take 1 v \<noteq> ''_'')) ''valid hostname'' c
         else asserts False ''valid hostname'' c)"

definition t_uciname :: "vctx \<Rightarrow> bool \<times> vctx" where
  "t_uciname c = asserts (test word_re (v_value c)) ''valid UCI identifier'' c"

definition t_netdevname :: "vctx \<Rightarrow> bool \<times> vctx" where
  "t_netdevname c =
     (let v = v_value c
      in if v = ''.'' \<or> v = ''..'' then asserts False (''valid network device name, not '' @ quoted ''.'' @ '' or '' @ quoted ''..'') c
         else asserts (test (RSeq (RRep (RChr (\<lambda>x. x \<noteq> CHR '':'' \<and> x \<noteq> CHR ''/'' \<and> x \<noteq> CHR ''%'' \<and> \<not> is_space x)) 1 14) REnd) v)
           (''valid network device name between 1 and 15 characters not containing '' @ quoted '':'' @ '', '' @ quoted ''/'' @
              '', '' @ quoted ''%'' @ '' or spaces'') c)"

definition t_host :: "bool \<Rightarrow> vctx \<Rightarrow> bool \<times> vctx" where
  "t_host ipv4only =
     checked (or_else (t_hostname False) (if ipv4only then t_ip4addr True else t_ipaddr True)) ''valid hostname or IP address''"

definition t_network :: "vctx \<Rightarrow> bool \<times> vctx" where
  "t_network =
     checked (or_else (or_else (or_else t_uciname (t_hostname False)) (t_ip4addr False)) (t_ip6addr False))
       ''valid UCI identifier, hostname or IP address range''"

definition t_hostport :: "bool \<Rightarrow> vctx \<Rightarrow> bool \<times> vctx" where
  "t_hostport ipv4only c =
     (let hp = split_on CHR '':'' (v_value c)
      in checked
           (and_then (\<lambda>c. if length hp = 2 then t_host ipv4only (with_value (hp ! 0) c) else (False, c))
              (\<lambda>c. t_port (with_value (hp ! 1) c)))
           ''valid host:port'' c)"

definition t_ip4addrport :: "vctx \<Rightarrow> bool \<times> vctx" where
  "t_ip4addrport c =
     (let hp = split_on CHR '':'' (v_value c)
      in checked
           (and_then (\<lambda>c. if length hp = 2 then t_ip4addr True (with_value (hp ! 0) c) else (False, c))
              (\<lambda>c. t_port (with_value (hp ! 1) c)))
           ''valid IPv4 address:port'' c)"

definition no_bracket :: "char \<Rightarrow> bool" where
  "no_bracket c \<longleftrightarrow> c \<noteq> CHR ''['' \<and> c \<noteq> CHR '']''"

definition addrport4_re :: rexp where
  "addrport4_re = RCat [RGrp 1 (RPlus (RChr (\<lambda>c. no_bracket c \<and> c \<noteq> CHR '':''))), RLit CHR '':'', RGrp 2 digits, REnd]"

definition not_newline :: "char \<Rightarrow> bool" where
  "not_newline c \<longleftrightarrow> code c \<noteq> 10 \<and> code c \<noteq> 13"

definition addrport6_re :: "bool \<Rightarrow> rexp" where
  "addrport6_re bracket =
     (if bracket then RCat [RLit CHR ''['', RGrp 1 (RPlus (RChr not_newline)), RLit CHR '']'', RLit CHR '':'', RGrp 2 digits, REnd]
      else RCat [RGrp 1 (RPlus (RChr no_bracket)), RLit CHR '':'', RGrp 2 digits, REnd])"

definition t_ipaddrport :: "bool \<Rightarrow> vctx \<Rightarrow> bool \<times> vctx" where
  "t_ipaddrport bracket c =
     (case exec addrport4_re (v_value c) of
        Some m \<Rightarrow>
          checked (and_then (\<lambda>c. t_ip4addr True (with_value (the (cap m 1)) c)) (\<lambda>c. t_port (with_value (the (cap m 2)) c)))
            ''valid address:port'' c
      | None \<Rightarrow>
          (case exec (addrport6_re bracket) (v_value c) of
             Some m \<Rightarrow>
               checked (and_then (\<lambda>c. t_ip6addr True (with_value (the (cap m 1)) c)) (\<lambda>c. t_port (with_value (the (cap m 2)) c)))
                 ''valid address:port'' c
           | None \<Rightarrow> asserts False ''valid address:port'' c))"

section \<open>Keys, dates and other strings\<close>

definition t_wpakey :: "vctx \<Rightarrow> bool \<times> vctx" where
  "t_wpakey c =
     (let v = v_value c
      in if length v = 64 then asserts (test (RSeq (RRep (RChr is_hex) 64 0) REnd) v) ''valid hexadecimal WPA key'' c
         else asserts (8 \<le> length v \<and> length v \<le> 63) ''key between 8 and 63 characters'' c)"

definition t_wepkey :: "vctx \<Rightarrow> bool \<times> vctx" where
  "t_wepkey c =
     (let v = (if take 2 (v_value c) = ''s:'' then drop 2 (v_value c) else v_value c)
      in if length v = 10 \<or> length v = 26
         then asserts (test (RSeq (RRep (RChr is_hex) 10 16) REnd) v) ''valid hexadecimal WEP key'' c
         else asserts (length v = 5 \<or> length v = 13) ''key with either 5 or 13 characters'' c)"

definition t_phonedigit :: "vctx \<Rightarrow> bool \<times> vctx" where
  "t_phonedigit c =
     asserts (test (RSeq (RPlus (RChr (\<lambda>x. is_digit x \<or> x \<in> set ''*#!.''))) REnd) (v_value c))
       (''valid phone digit (0-9, '' @ quoted ''*'' @ '', '' @ quoted ''#'' @ '', '' @ quoted ''!'' @ '' or '' @ quoted ''.'' @ '')'') c"

definition zero_to_six :: "char \<Rightarrow> bool" where
  "zero_to_six c \<longleftrightarrow> 48 \<le> code c \<and> code c \<le> 54"

definition two_digits :: rexp where
  "two_digits = RSeq (RChr zero_to_six) (RChr is_digit)"

definition t_timehhmmss :: "vctx \<Rightarrow> bool \<times> vctx" where
  "t_timehhmmss c =
     asserts (test (RCat [two_digits, RLit CHR '':'', two_digits, RLit CHR '':'', two_digits, REnd]) (v_value c)) ''valid time (HH:MM:SS)'' c"

definition t_timehhmm :: "vctx \<Rightarrow> bool \<times> vctx" where
  "t_timehhmm c =
     asserts (test (RCat [two_digits, RLit CHR '':'', two_digits, REnd]) (v_value c)) ''valid time (HH:MM)'' c"

text \<open>\<open>/^(\d\d\d\d)-(\d\d)-(\d\d)/\<close>\<close>

definition date_re :: rexp where
  "date_re = RCat [RGrp 1 (RRep (RChr is_digit) 4 0), RLit CHR ''-'', RGrp 2 (RRep (RChr is_digit) 2 0),
     RLit CHR ''-'', RGrp 3 (RRep (RChr is_digit) 2 0)]"

definition is_leap_year :: "nat \<Rightarrow> bool" where
  "is_leap_year year \<longleftrightarrow> (year mod 4 = 0 \<and> year mod 100 \<noteq> 0) \<or> year mod 400 = 0"

definition get_days_in_month :: "nat \<Rightarrow> nat \<Rightarrow> nat" where
  "get_days_in_month month year =
     (if month = 2 \<and> is_leap_year year then 29
      else [31, 28, 31, 30, 31, 30, 31, 31, 30, 31, 30, 31] ! (month - 1))"

definition t_dateyyyymmdd :: "vctx \<Rightarrow> bool \<times> vctx" where
  "t_dateyyyymmdd c =
     (case exec date_re (v_value c) of
        Some m \<Rightarrow>
          (let year = nat_of_radix 10 (the (cap m 1)); month = nat_of_radix 10 (the (cap m 2)); day = nat_of_radix 10 (the (cap m 3))
           in asserts (2015 \<le> year \<and> month \<noteq> 0 \<and> month \<le> 12 \<and> day \<noteq> 0 \<and> day \<le> get_days_in_month month year)
                ''valid date (YYYY-MM-DD)'' c)
      | None \<Rightarrow> asserts False ''valid date (YYYY-MM-DD)'' c)"

definition t_hexstring :: "vctx \<Rightarrow> bool \<times> vctx" where
  "t_hexstring c =
     (let lo = RChr (\<lambda>x. is_digit x \<or> (97 \<le> code x \<and> code x \<le> 102));
          up = RChr (\<lambda>x. is_digit x \<or> (65 \<le> code x \<and> code x \<le> 70))
      in asserts (test (RSeq (RPlus (RGrp 1 (RAlt (RSeq lo lo) (RSeq up up)))) REnd) (v_value c)) ''hexadecimal encoded value'' c)"

section \<open>The table of datatypes\<close>

text \<open>The datatypes that take no datatype as argument.\<close>

definition run_leaf :: "string \<Rightarrow> tok list \<Rightarrow> vctx \<Rightarrow> (bool \<times> vctx) option" where
  "run_leaf name args c =
     (let flag = tok_truthy (arg args 0)
      in map_option (\<lambda>f. f c) (map_of
        [(''integer'', t_integer), (''uinteger'', t_uinteger), (''float'', t_float), (''ufloat'', t_ufloat),
         (''ipaddr'', t_ipaddr flag), (''ip4addr'', t_ip4addr flag), (''ip6addr'', t_ip6addr flag),
         (''ip4prefix'', t_ip4prefix), (''ip6prefix'', t_ip6prefix),
         (''cidr'', t_cidr flag), (''cidr4'', t_cidr4 flag), (''cidr6'', t_cidr6 flag),
         (''ipnet4'', t_ipnet4), (''ipnet6'', t_ipnet6), (''ip6hostid'', t_ip6hostid),
         (''ipmask'', t_ipmask flag), (''ipmask4'', t_ipmask4 flag), (''ipmask6'', t_ipmask6 flag),
         (''port'', t_port), (''portrange'', t_portrange), (''macaddr'', t_macaddr flag),
         (''host'', t_host (tok_is_one (arg args 0))), (''hostname'', t_hostname flag), (''network'', t_network),
         (''hostport'', t_hostport (tok_is_one (arg args 0))), (''ip4addrport'', t_ip4addrport),
         (''ipaddrport'', t_ipaddrport (tok_is_one (arg args 0))),
         (''wpakey'', t_wpakey), (''wepkey'', t_wepkey), (''uciname'', t_uciname), (''netdevname'', t_netdevname),
         (''range'', t_range args), (''min'', t_min args), (''max'', t_max args), (''length'', t_length args),
         (''rangelength'', t_rangelength args), (''minlength'', t_minlength args), (''maxlength'', t_maxlength args),
         (''phonedigit'', t_phonedigit), (''timehhmmss'', t_timehhmmss), (''timehhmm'', t_timehhmm),
         (''dateyyyymmdd'', t_dateyyyymmdd), (''hexstring'', t_hexstring),
         (''string'', pure True), (''directory'', pure True), (''file'', pure True), (''device'', pure True)] name))"

definition leaf_names :: "string list" where
  "leaf_names = [''integer'', ''uinteger'', ''float'', ''ufloat'', ''ipaddr'', ''ip4addr'', ''ip6addr'', ''ip4prefix'',
     ''ip6prefix'', ''cidr'', ''cidr4'', ''cidr6'', ''ipnet4'', ''ipnet6'', ''ip6hostid'', ''ipmask'', ''ipmask4'',
     ''ipmask6'', ''port'', ''portrange'', ''macaddr'', ''host'', ''hostname'', ''network'', ''hostport'',
     ''ip4addrport'', ''ipaddrport'', ''wpakey'', ''wepkey'', ''uciname'', ''netdevname'', ''range'', ''min'', ''max'',
     ''length'', ''rangelength'', ''minlength'', ''maxlength'', ''phonedigit'', ''timehhmmss'', ''timehhmm'',
     ''dateyyyymmdd'', ''hexstring'', ''string'', ''directory'', ''file'', ''device'']"

definition is_type :: "string \<Rightarrow> bool" where
  "is_type name \<longleftrightarrow> name \<in> set leaf_names \<or> name \<in> {''or'', ''and'', ''neg'', ''list'', ''unique''}"

section \<open>Datatypes that take datatypes\<close>

text \<open>The second argument of \<open>func.apply(this, args)\<close>.\<close>

definition args_of :: "tok list \<Rightarrow> tok list jsret" where
  "args_of rest =
     (case rest of
        [] \<Rightarrow> Ret []
      | TNull # _ \<Rightarrow> Ret []
      | TArgs l # _ \<Rightarrow> Ret l
      | _ \<Rightarrow> Throw ''TypeError'')"

lemma args_of_size: "args_of rest = Ret l \<Longrightarrow> size_list size l \<le> size_list size rest"
  by (auto simp: args_of_def split: list.splits tok.splits)

definition is_tab_blank :: "char \<Rightarrow> bool" where
  "is_tab_blank c \<longleftrightarrow> c = CHR '' '' \<or> code c = 9"

text \<open>\<open>value.replace(/^[ \t]*![ \t]*/, '')\<close>\<close>

definition strip_neg :: "string \<Rightarrow> string" where
  "strip_neg s =
     (case dropWhile is_tab_blank s of
        c # t \<Rightarrow> if c = CHR ''!'' then dropWhile is_tab_blank t else s
      | [] \<Rightarrow> s)"

text \<open>\<open>value.match(/[^ \t]+/g)\<close>, empty where that is \<open>null\<close>.\<close>

fun blank_words :: "string \<Rightarrow> string \<Rightarrow> string list" where
  "blank_words [] w = (if w = [] then [] else [w])"
| "blank_words (c # s) w =
     (if is_tab_blank c then (if w = [] then blank_words s [] else w # blank_words s []) else blank_words s (w @ [c]))"

definition not_unique :: "vctx \<Rightarrow> bool" where
  "not_unique c =
     list_ex (\<lambda>x. case x of None \<Rightarrow> False | Some (v, is_list) \<Rightarrow> v_value c \<in> set (if is_list then blank_words v [] else [v]))
       (v_siblings c)"

text \<open>\<open>arguments[i] == this.value\<close> for an argument that is no function.\<close>

definition tok_equals :: "tok \<Rightarrow> string \<Rightarrow> bool" where
  "tok_equals t v = (case t of TStr s \<Rightarrow> s = v | TNum x \<Rightarrow> num_eq x (to_number v) | _ \<Rightarrow> False)"

definition quote_arg :: "tok \<Rightarrow> string" where
  "quote_arg t = message (quoted ''%s'') [tok_param (Some t)]"

definition error_param :: "vctx \<Rightarrow> fparam" where
  "error_param c = (case v_error c of Some e \<Rightarrow> PStr e | None \<Rightarrow> PNull)"

definition bullet :: string where
  "bullet = [char_of (10 :: nat)] @ '' - ''"

lemma size_drop: "size_list size (drop n xs) \<le> size_list (size :: tok \<Rightarrow> nat) xs"
proof (induction xs arbitrary: n)
  case (Cons x xs)
  then show ?case by (cases n) (auto intro: le_SucI trans_le_add2 le_trans)
qed simp

function (sequential) run_type :: "string \<Rightarrow> tok list \<Rightarrow> vctx \<Rightarrow> outcome"
  and run_or :: "tok list \<Rightarrow> string list \<Rightarrow> vctx \<Rightarrow> outcome"
  and run_and :: "tok list \<Rightarrow> vctx \<Rightarrow> outcome"
  and run_list :: "string \<Rightarrow> tok list \<Rightarrow> string list \<Rightarrow> vctx \<Rightarrow> outcome" where
  "run_type name args c =
     (case run_leaf name args c of
        Some r \<Rightarrow> Ret r
      | None \<Rightarrow>
          if name = ''or'' then run_or args [] c
          else if name = ''and'' then run_and args c
          else if name = ''neg'' then
            (case args of
               TFun f # rest \<Rightarrow>
                 jbind (args_of rest) (\<lambda>sub.
                 jbind (run_type f sub (c\<lparr>v_value := strip_neg (v_value c)\<rparr>)) (\<lambda>(b, c1).
                   Ret (if b then assert True None c1
                        else asserts False (message ''Potential negation of: %s'' [error_param c1]) c1)))
             | _ \<Rightarrow> Throw ''TypeError'')
          else if name = ''list'' then
            (let c1 = c\<lparr>v_islist := True\<rparr>; tokens = blank_words (v_value c) []
             in if tokens = [] then Throw ''TypeError''
                else (case args of
                        TFun f # rest \<Rightarrow> jbind (args_of rest) (\<lambda>sub. run_list f sub tokens c1)
                      | TStr f # rest \<Rightarrow>
                          if is_type f then jbind (args_of rest) (\<lambda>sub. run_list f sub tokens c1)
                          else Ret (assert False (v_error c1) c1)
                      | _ \<Rightarrow> Ret (assert False (v_error c1) c1)))
          else if name = ''unique'' then
            (if not_unique c then Ret (asserts False ''unique value'' c)
             else (case args of
                     TFun f # rest \<Rightarrow> jbind (args_of rest) (\<lambda>sub. run_type f sub c)
                   | _ \<Rightarrow> Ret (assert True None c)))
          else Throw ''TypeError'')"
| "run_or [] errors c = Ret (asserts False (message ''One of the following: %s'' [PStr (bullet @ join bullet errors)]) c)"
| "run_or (TFun f # rest) errors c =
     jbind (args_of rest) (\<lambda>sub.
     jbind (run_type f sub c) (\<lambda>(b, c1).
       if b then Ret (assert True None c1)
       else run_or (drop 1 rest) (errors @ [case v_error c1 of Some e \<Rightarrow> e | None \<Rightarrow> []]) c1))"
| "run_or (t # rest) errors c =
     (if tok_equals t (v_value c) then Ret (assert True None c)
      else run_or rest (errors @ [quote_arg t]) c)"
| "run_and [] c = Ret (assert True None c)"
| "run_and (TFun f # rest) c =
     jbind (args_of rest) (\<lambda>sub.
     jbind (run_type f sub c) (\<lambda>(b, c1).
       if \<not> b then Ret (assert False (v_error c1) c1) else run_and (drop 1 rest) c1))"
| "run_and (t # rest) c =
     (if \<not> tok_equals t (v_value c) then Ret (asserts False (quote_arg t) c) else run_and rest c)"
| "run_list f sub [] c = Ret (assert True None c)"
| "run_list f sub (t # ts) c =
     jbind (run_type f sub (with_value t c)) (\<lambda>(b, c1).
       if \<not> b then Ret (assert False (v_error c1) c1) else run_list f sub ts c1)"
  by pat_completeness auto

termination
  by (relation "measures [
      \<lambda>x. case x of
        Inl (Inl (name, args, c)) \<Rightarrow> size_list size args
      | Inl (Inr (args, errors, c)) \<Rightarrow> size_list size args
      | Inr (Inl (args, c)) \<Rightarrow> size_list size args
      | Inr (Inr (f, sub, ts, c)) \<Rightarrow> size_list size sub,
      \<lambda>x. case x of Inl (Inl _) \<Rightarrow> Suc 0 | Inl (Inr _) \<Rightarrow> 0 | Inr (Inl _) \<Rightarrow> 0 | Inr (Inr _) \<Rightarrow> Suc (Suc 0),
      \<lambda>x. case x of Inr (Inr (f, sub, ts, c)) \<Rightarrow> length ts | _ \<Rightarrow> 0]")
    (auto dest: args_of_size simp: less_Suc_eq_le size_drop)

section \<open>The parser of datatype expressions\<close>

text \<open>\<open>label.replace(/\\(.)/g, '$1')\<close>\<close>

fun unescape :: "string \<Rightarrow> string" where
  "unescape [] = []"
| "unescape [c] = [c]"
| "unescape (c # d # s) =
     (if c = CHR 0x5C \<and> not_newline d then d # unescape s else c # unescape (d # s))"

definition clean_label :: "string \<Rightarrow> string" where
  "clean_label s = trim_by is_tab_blank (unescape s)"

text \<open>\<open>/^(['"]).*\1$/\<close> and the text between the quotes\<close>

definition unquote :: "string \<Rightarrow> string option" where
  "unquote s =
     (if 2 \<le> length s \<and> (hd s = CHR 0x27 \<or> hd s = CHR 0x22) \<and> last s = hd s \<and> list_all not_newline (butlast (tl s))
      then Some (butlast (tl s)) else None)"

definition push_label :: "string \<Rightarrow> tok list \<Rightarrow> tok list jsret" where
  "push_label seg stack =
     (let label = clean_label seg
      in if label \<noteq> [] \<and> to_number label \<noteq> NaN then Ret (stack @ [TNum (parseFloat label)])
         else (case unquote label of
                 Some q \<Rightarrow> Ret (stack @ [TStr q])
               | None \<Rightarrow>
                   if is_type label then Ret (stack @ [TFun label, TNull])
                   else Throw ''SyntaxError''))"

definition separator :: "string \<Rightarrow> int \<Rightarrow> tok list \<Rightarrow> (string \<times> tok list) jsret" where
  "separator seg depth stack =
     (if depth \<le> 0 then
        (if seg \<noteq> [] then jbind (push_label seg stack) (\<lambda>st. Ret ([], st)) else Ret ([], stack))
      else Ret (seg, stack))"

definition set_args :: "tok list \<Rightarrow> tok list \<Rightarrow> tok list" where
  "set_args stack args = butlast stack @ [TArgs args]"

definition follows_function :: "tok list \<Rightarrow> bool" where
  "follows_function stack =
     (2 \<le> length stack \<and> (case stack ! (length stack - 2) of TFun _ \<Rightarrow> True | _ \<Rightarrow> False))"

text \<open>
  The loop over the characters: \<open>seg\<close> is the text from \<open>pos\<close> to the current position.  The comma that the
  code appends is the end of the input here.
\<close>

function compile_go :: "string \<Rightarrow> string \<Rightarrow> bool \<Rightarrow> int \<Rightarrow> tok list \<Rightarrow> tok list jsret" where
  "compile_go [] seg escd depth stack =
     (if escd then Ret stack else jbind (separator seg depth stack) (\<lambda>(s, st). Ret st))"
| "compile_go (ch # rest) seg escd depth stack =
     (if escd then compile_go rest (seg @ [ch]) False depth stack
      else if ch = CHR 0x5C then compile_go rest (seg @ [ch]) True depth stack
      else if ch = CHR ''('' \<or> ch = CHR '','' then
        (let d = (if ch = CHR ''('' then depth + 1 else depth)
         in if depth \<le> 0 then
              jbind (separator seg depth stack) (\<lambda>(s, st). compile_go rest [] False d st)
            else compile_go rest (seg @ [ch]) False d stack)
      else if ch = CHR '')'' then
        (if depth - 1 \<le> 0 then
           (if \<not> follows_function stack then Throw ''SyntaxError''
            else jbind (compile_go seg [] False 0 []) (\<lambda>args.
                   compile_go rest [] False (depth - 1) (set_args stack args)))
         else compile_go rest (seg @ [ch]) False (depth - 1) stack)
      else compile_go rest (seg @ [ch]) False depth stack)"
  by pat_completeness auto
termination
  by (relation "measures [\<lambda>(rest, seg, _). length rest + length seg, \<lambda>(rest, _). length rest]") auto

definition compile :: "string \<Rightarrow> tok list jsret" where
  "compile c = compile_go c [] False 0 []"

section \<open>Validation of a field\<close>

record vfield =
  f_attached :: bool
  f_value :: "string option"

text \<open>\<open>this.vstack[0].apply(this, this.vstack[1])\<close>\<close>

definition run_stack :: "tok list \<Rightarrow> vctx \<Rightarrow> outcome" where
  "run_stack vstack c =
     (case vstack of
        TFun f # rest \<Rightarrow> jbind (args_of rest) (\<lambda>args. run_type f args c)
      | _ \<Rightarrow> Throw ''TypeError'')"

definition fail_event :: "string \<Rightarrow> vctx \<Rightarrow> vctx" where
  "fail_event m c = c\<lparr>v_tooltip := Some m, v_events := v_events c @ [''validation-failure'']\<rparr>"

text \<open>\<open>vfunc\<close> returns \<^const>\<open>None\<close> for \<open>true\<close> and otherwise the text shown.\<close>

definition validate ::
  "tok list \<Rightarrow> bool \<Rightarrow> (string \<Rightarrow> string option) option \<Rightarrow> vfield \<Rightarrow> vctx \<Rightarrow> outcome" where
  "validate vstack optional vfunc field c0 =
     (if \<not> f_attached field then Ret (True, c0)
      else
        let c = c0\<lparr>v_invalid := False, v_value := (case f_value field of Some v \<Rightarrow> v | None \<Rightarrow> []), v_error := None\<rparr>
        in jbind (if v_value c = [] then Ret (asserts optional ''non-empty value'' c) else run_stack vstack c)
             (\<lambda>(valid, c1).
                if \<not> valid then
                  Ret (False, fail_event (message ''Expecting: %s'' [error_param c1]) c1)
                else (case Option.bind vfunc (\<lambda>f. f (v_value c1)) of
                        Some m \<Rightarrow> Ret (False, fail_event m (snd (assert False (Some m) c1)))
                      | None \<Rightarrow>
                          Ret (True, c1\<lparr>v_tooltip := None, v_events := v_events c1 @ [''validation-success'']\<rparr>))))"

end
