(* ===== verification/ValidationLaws.thy ===== *)
theory ValidationLaws
  imports Validation UciOrder
begin

text \<open>
  Laws of the validator: the field is marked exactly when validation fails, the address parsers accept what
  they print and return words in range, and the acceptance conditions of the numeric datatypes.
\<close>

section \<open>Addresses of version 4\<close>

definition octet_string :: "string \<Rightarrow> bool" where
  "octet_string s \<longleftrightarrow> s \<noteq> [] \<and> length s \<le> 3 \<and> (\<forall>c \<in> set s. is_digit c)"

lemma dot_not_digit: "\<not> is_digit CHR ''.''"
  by (simp add: is_digit_def code_def)

lemma octet_repeats: "repeats octet is_digit 1 (Some 3)"
  using repeats_rep [of is_digit 1 2] by (simp add: octet_def eval_nat_numeral)

text \<open>One group and the dot after it.\<close>

lemma match_octet_dot:
  "rmatch (RSeq (RGrp n octet) (RSeq (RLit CHR ''.'') b)) s =
     (case dropWhile is_digit s of
        [] \<Rightarrow> []
      | c # t \<Rightarrow> if c = CHR ''.'' \<and> octet_string (takeWhile is_digit s)
                 then map (\<lambda>(ds, u). ((n, takeWhile is_digit s) # ds, u)) (rmatch b t) else [])"
proof -
  have e: "octet_string (takeWhile is_digit s) \<longleftrightarrow> fits (length (takeWhile is_digit s)) 1 (Some 3)"
    by (auto simp: octet_string_def Suc_le_eq dest: set_takeWhileD)
  have "rmatch (RSeq (RGrp n octet) (RSeq (RChr (\<lambda>x. x = CHR ''.'')) b)) s =
     (case dropWhile is_digit s of [] \<Rightarrow> []
      | c # t \<Rightarrow> if c = CHR ''.'' \<and> fits (length (takeWhile is_digit s)) 1 (Some 3)
                 then map (\<lambda>(ds, u). ((n, takeWhile is_digit s) # ds, u)) (rmatch b t) else [])"
    by (rule rmatch_run_char [OF octet_repeats]) (use dot_not_digit in auto)
  then show ?thesis by (simp only: e RLit_def)
qed

lemma match_octet_end:
  "rmatch (RSeq (RGrp n octet) REnd) s = (if octet_string s then [([(n, s)], [])] else [])"
proof -
  have "octet_string s \<longleftrightarrow> dropWhile is_digit s = [] \<and> fits (length s) 1 (Some 3)"
    by (auto simp: octet_string_def Suc_le_eq)
  then show ?thesis using rmatch_run_end [OF octet_repeats, of n s] by simp
qed

lemma ipv4_re_unfold:
  "ipv4_re = RSeq (RGrp 1 octet) (RSeq (RLit CHR ''.'') (RSeq (RGrp 2 octet) (RSeq (RLit CHR ''.'')
     (RSeq (RGrp 3 octet) (RSeq (RLit CHR ''.'') (RSeq (RGrp 4 octet) REnd))))))"
  by (simp add: ipv4_re_def)

lemma take_octet: "octet_string g \<Longrightarrow> takeWhile is_digit (g @ CHR ''.'' # t) = g \<and> dropWhile is_digit (g @ CHR ''.'' # t) = CHR ''.'' # t"
  by (auto simp: octet_string_def takeWhile_run dropWhile_run dot_not_digit)

lemma exec_ipv4:
  assumes "octet_string a" "octet_string b" "octet_string c" "octet_string d"
  shows "exec ipv4_re (a @ ''.'' @ b @ ''.'' @ c @ ''.'' @ d) = Some [(1, a), (2, b), (3, c), (4, d)]"
proof -
  have "rmatch ipv4_re (a @ CHR ''.'' # b @ CHR ''.'' # c @ CHR ''.'' # d) = [([(1, a), (2, b), (3, c), (4, d)], [])]"
    unfolding ipv4_re_unfold
    by (simp only: match_octet_dot match_octet_end take_octet assms list.case simp_thms if_True list.map prod.case)
  then show ?thesis by (simp add: exec_def)
qed

lemma exec_ipv4D:
  assumes "exec ipv4_re x = Some m"
  obtains a b c d where "x = a @ ''.'' @ b @ ''.'' @ c @ ''.'' @ d" "octet_string a" "octet_string b" "octet_string c"
    "octet_string d" "m = [(1, a), (2, b), (3, c), (4, d)]"
proof -
  have step: "\<exists>t ds. s = takeWhile is_digit s @ CHR ''.'' # t \<and> octet_string (takeWhile is_digit s) \<and>
      cs = (n, takeWhile is_digit s) # ds \<and> (ds, u) \<in> set (rmatch b t)"
    if "(cs, u) \<in> set (rmatch (RSeq (RGrp n octet) (RSeq (RLit CHR ''.'') b)) s)" for cs u n b s
  proof -
    note m = that [unfolded match_octet_dot]
    then have "dropWhile is_digit s \<noteq> []" by (auto simp del: dropWhile_eq_Nil_conv)
    then obtain c t where t: "dropWhile is_digit s = c # t" by (cases "dropWhile is_digit s") simp_all
    then have "c = CHR ''.''" "octet_string (takeWhile is_digit s)"
      "(cs, u) \<in> set (map (\<lambda>(ds, u). ((n, takeWhile is_digit s) # ds, u)) (rmatch b t))"
      using m unfolding t by (auto split: if_splits)
    moreover have "s = takeWhile is_digit s @ c # t" using takeWhile_dropWhile_id [of is_digit s] t by simp
    ultimately show ?thesis by auto
  qed
  from assms obtain u where u: "(m, u) \<in> set (rmatch ipv4_re x)"
    by (cases "rmatch ipv4_re x") (auto simp: exec_def intro: that)
  from step [OF u [unfolded ipv4_re_unfold]] obtain t1 d1 where 1: "x = takeWhile is_digit x @ CHR ''.'' # t1"
    "octet_string (takeWhile is_digit x)" "m = (1, takeWhile is_digit x) # d1" and u1: "(d1, u) \<in> set (rmatch
      (RSeq (RGrp 2 octet) (RSeq (RLit CHR ''.'') (RSeq (RGrp 3 octet) (RSeq (RLit CHR ''.'') (RSeq (RGrp 4 octet) REnd))))) t1)"
    by blast
  from step [OF u1] obtain t2 d2 where 2: "t1 = takeWhile is_digit t1 @ CHR ''.'' # t2"
    "octet_string (takeWhile is_digit t1)" "d1 = (2, takeWhile is_digit t1) # d2" and u2: "(d2, u) \<in> set (rmatch
      (RSeq (RGrp 3 octet) (RSeq (RLit CHR ''.'') (RSeq (RGrp 4 octet) REnd))) t2)" by blast
  from step [OF u2] obtain t3 d3 where 3: "t2 = takeWhile is_digit t2 @ CHR ''.'' # t3"
    "octet_string (takeWhile is_digit t2)" "d2 = (3, takeWhile is_digit t2) # d3" and u3: "(d3, u) \<in> set (rmatch
      (RSeq (RGrp 4 octet) REnd) t3)" by blast
  from u3 have 4: "octet_string t3" "d3 = [(4, t3)]" unfolding match_octet_end by (auto split: if_splits)
  have "x = takeWhile is_digit x @ ''.'' @ takeWhile is_digit t1 @ ''.'' @ takeWhile is_digit t2 @ ''.'' @ t3"
    using 1(1) 2(1) 3(1) by simp
  then show ?thesis using 1 2 3 4 by (intro that) auto
qed

lemma octet_number: "octet_string g \<Longrightarrow> to_number g = Fin (of_nat (nat_of_radix 10 g))"
  by (rule to_number_digits) (auto simp: octet_string_def)

lemma uint32_of_nat: "n < 4294967296 \<Longrightarrow> to_uint32 (Fin (of_nat n)) = n"
  by (simp add: rat_trunc_def)

lemma parse_ipv4_groups:
  assumes "octet_string a" "octet_string b" "octet_string c" "octet_string d"
  shows "parseIPv4 (a @ ''.'' @ b @ ''.'' @ c @ ''.'' @ d) =
    (if \<forall>g \<in> {a, b, c, d}. nat_of_radix 10 g \<le> 255 then Some (map (nat_of_radix 10) [a, b, c, d]) else None)"
proof -
  have v: "num_less (Fin 255) (to_number g) \<longleftrightarrow> 255 < nat_of_radix 10 g" if "octet_string g" for g
  proof -
    have "(255 :: rat) < of_nat n \<longleftrightarrow> 255 < n" for n by (metis of_nat_less_iff of_nat_numeral)
    then show ?thesis by (simp add: octet_number [OF that])
  qed
  have u: "to_uint32 (to_number g) = nat_of_radix 10 g" if "octet_string g" "nat_of_radix 10 g \<le> 255" for g
    using that uint32_of_nat [of "nat_of_radix 10 g"] by (simp add: octet_number)
  show ?thesis
    unfolding parseIPv4_def exec_ipv4 [OF assms]
    by (simp add: cap_def v assms u not_less)
qed

lemma dec_octet: "n \<le> 255 \<Longrightarrow> octet_string (dec_string n)"
  using radix_string_length [of 10 n 3] dec_string_digits [of _ n] by (auto simp: octet_string_def)


lemma parse_ipv4_text:
  assumes "length os = 4" and "\<forall>n \<in> set os. n \<le> 255"
  shows "parseIPv4 (join ''.'' (map dec_string os)) = Some os"
proof -
  obtain a b c d where os: "os = [a, b, c, d]"
    using assms(1) by (auto simp: length_Suc_conv eval_nat_numeral)
  have o: "octet_string (dec_string n)" if "n \<in> set os" for n using that assms(2) dec_octet by blast
  have "parseIPv4 (dec_string a @ ''.'' @ dec_string b @ ''.'' @ dec_string c @ ''.'' @ dec_string d) = Some [a, b, c, d]"
    using assms(2) by (subst parse_ipv4_groups) (auto simp: os radix_round_trip intro: o)
  then show ?thesis by (simp add: os)
qed

text \<open>C24. Dotted decimal notation round trips: the text of any four octets, written without leading zeros, is
  parsed back to the same octets by \<open>parseIPv4\<close>.\<close>

theorem parseIPv4_round_trip:
  assumes "length os = 4" and "\<forall>n \<in> set os. n \<le> 255"
  shows "parseIPv4 (join ''.'' (map dec_string os)) = Some os"
  using assms by (rule parse_ipv4_text)

theorem parseIPv4_round_trip_witness:
  "parseIPv4 (join ''.'' (map dec_string [192, 168, 0, 255])) = Some [192, 168, 0, 255]"
  by (rule parseIPv4_round_trip) simp_all

text \<open>What \<open>parseIPv4\<close> accepts is four groups of one to three digits separated by dots, and it
  returns their values, each an octet.\<close>

theorem parseIPv4_sound:
  assumes "parseIPv4 x = Some os"
  shows "\<exists>gs. x = join ''.'' gs \<and> length gs = 4 \<and> (\<forall>g \<in> set gs. octet_string g) \<and> os = map (nat_of_radix 10) gs \<and>
    (\<forall>n \<in> set os. n \<le> 255)"
proof -
  from assms obtain m where "exec ipv4_re x = Some m" by (auto simp: parseIPv4_def split: option.splits)
  then obtain a b c d where g: "x = a @ ''.'' @ b @ ''.'' @ c @ ''.'' @ d"
    and o: "octet_string a" "octet_string b" "octet_string c" "octet_string d" by (rule exec_ipv4D)
  from assms have "(\<forall>g \<in> {a, b, c, d}. nat_of_radix 10 g \<le> 255) \<and> os = map (nat_of_radix 10) [a, b, c, d]"
    unfolding g parse_ipv4_groups [OF o] by (simp split: if_splits)
  then show ?thesis using o g by (intro exI [of _ "[a, b, c, d]"]) auto
qed

theorem parseIPv4_sound_witness:
  "\<exists>gs. ''10.0.0.1'' = join ''.'' gs \<and> length gs = 4 \<and> list_all octet_string gs \<and> [10, 0, 0, 1] = map (nat_of_radix 10) gs"
proof -
  have "parseIPv4 ''10.0.0.1'' = Some [10, 0, 0, 1]" by code_simp
  from parseIPv4_sound [OF this] show ?thesis by (metis (no_types, lifting) list_all_iff)
qed

section \<open>Addresses of version 6\<close>

lemma mapped_needs_dot: "CHR ''.'' \<notin> set x \<Longrightarrow> exec mapped_re x = None"
proof -
  assume n: "CHR ''.'' \<notin> set x"
  have "\<not> test mapped_re x"
    using n unfolding test_iff_rlang mapped_re_def by (auto simp: RLit_def)
  then show ?thesis by (simp add: exec_def test_def)
qed

lemma parse_words_range: "parse_words gs = Some ws \<Longrightarrow> length ws = length gs \<and> (\<forall>w \<in> set ws. w < 65536)"
proof (induction gs arbitrary: ws)
  case (Cons g gs)
  then obtain q vs where q: "parseInt g 16 = Fin q" "q \<le> 0xFFFF" "parse_words gs = Some vs" "ws = nat \<lfloor>q\<rfloor> # vs"
    by (auto split: jsnum.splits if_splits)
  then have "nat \<lfloor>q\<rfloor> < 65536" by linarith
  then show ?case using Cons.IH [OF q(3)] q(4) by simp
qed simp

lemma parse_groups_range:
  assumes "parse_groups x = Some ws"
  shows "length ws = 8 \<and> (\<forall>w \<in> set ws. w < 65536)"
proof -
  define prefix where "prefix = split_on CHR '':'' (or_zero_string (split_dcolon x [] ! 0))"
  define suffix where "suffix = (if length (split_dcolon x []) > 1 then split_on CHR '':'' (or_zero_string (split_dcolon x [] ! 1)) else [])"
  from assms obtain a b where g: "parse_words prefix = Some a" "parse_words suffix = Some b"
    "ws = a @ replicate (8 - length prefix - length suffix) 0 @ b" "length prefix + length suffix \<le> 8"
    unfolding parse_groups_def Let_def prefix_def [symmetric] suffix_def [symmetric]
    by (auto split: if_splits option.splits)
  then show ?thesis using parse_words_range [OF g(1)] parse_words_range [OF g(2)] by auto
qed

text \<open>An address accepted by \<open>parseIPv6\<close> is always eight 16-bit words, however it was abbreviated.\<close>

theorem parseIPv6_words: "parseIPv6 x = Some ws \<Longrightarrow> length ws = 8 \<and> (\<forall>w \<in> set ws. w < 65536)"
  by (auto simp: parseIPv6_def dest: parse_groups_range split: option.splits list.splits)

theorem parseIPv6_words_witness:
  "parseIPv6 ''fe::0.0.0.1'' = Some [0xfe, 0, 0, 0, 0, 0, 0, 1] \<and> length [0xfe, 0, 0, 0, 0, 0, 0, 1 :: nat] = 8 \<and> (1 :: nat) < 65536"
proof -
  have p: "parseIPv6 ''fe::0.0.0.1'' = Some [0xfe, 0, 0, 0, 0, 0, 0, 1]" by code_simp
  then show ?thesis using parseIPv6_words [OF p] by simp
qed

lemma hex_facts:
  assumes "is_hex c"
  shows "digit_val c < 16" "\<not> is_space c" "c \<noteq> CHR '':''" "c \<noteq> CHR ''.''" "c \<noteq> CHR ''-''" "c \<noteq> CHR ''+''"
    "c \<noteq> CHR ''x''" "c \<noteq> CHR ''X''"
  using assms by (auto simp: is_hex_def is_digit_def digit_val_def is_lower_def is_upper_def is_space_def code_def)

lemma parseInt_hex:
  assumes "s \<noteq> []" and h: "\<And>c. c \<in> set s \<Longrightarrow> is_hex c"
  shows "parseInt s 16 = Fin (of_nat (nat_of_radix 16 s))"
proof -
  obtain c u where c: "s = c # u" using assms(1) by (cases s) auto
  have hc: "is_hex c" using h by (simp add: c)
  have "take 2 s \<noteq> ''0x'' \<and> take 2 s \<noteq> ''0X''"
    using h hex_facts(7,8) by (cases u) (auto simp: c take_Suc eval_nat_numeral)
  moreover have tw: "takeWhile (\<lambda>c. digit_val c < 16) s = s"
    using takeWhile_all [of s "\<lambda>c. digit_val c < 16"] h hex_facts(1) by blast
  ultimately have "int_prefix 16 s = Fin (of_nat (nat_of_radix 16 s))"
    using assms(1) by (simp add: int_prefix_def Let_def tw)
  moreover have "dropWhile is_space s = s" using hex_facts(2) [OF hc] by (simp add: c)
  ultimately show ?thesis using hex_facts(5,6) [OF hc] by (simp add: parseInt_def with_sign_def c)
qed

lemma parse_words_hex:
  "\<forall>w \<in> set ws. w < 65536 \<Longrightarrow> parse_words (map hex_string ws) = Some ws"
proof (induction ws)
  case (Cons w ws)
  have "length (hex_string w) \<le> 4" using Cons.prems radix_string_length [of 16 w 4] by simp
  moreover have "parseInt (hex_string w) 16 = Fin (of_nat w)"
    using parseInt_hex [of "hex_string w"] hex_string_hex radix_round_trip [of 16 w] by simp
  moreover have "(of_nat w :: rat) \<le> 65535" using Cons.prems by (simp add: of_nat_le_iff [of _ 65535, simplified])
  ultimately show ?case using Cons by simp
qed simp

lemma split_dcolon_groups:
  "\<forall>g \<in> set gs. g \<noteq> [] \<and> CHR '':'' \<notin> set g \<Longrightarrow> split_dcolon (join '':'' gs) seg = [seg @ join '':'' gs]"
proof -
  have one: "split_dcolon s seg = [seg @ s]" if "\<forall>i. Suc i < length s \<longrightarrow> \<not> (s ! i = CHR '':'' \<and> s ! Suc i = CHR '':'')" for s seg
    using that
  proof (induction s seg rule: split_dcolon.induct)
    case (3 c d s seg)
    from "3.prems" have "\<not> (c = CHR '':'' \<and> d = CHR '':'')" by force
    moreover have "\<forall>i. Suc i < length (d # s) \<longrightarrow> \<not> ((d # s) ! i = CHR '':'' \<and> (d # s) ! Suc i = CHR '':'')"
      using "3.prems" by fastforce
    ultimately show ?case using "3.IH"(2) by simp
  qed simp_all
  show ?thesis if g: "\<forall>g \<in> set gs. g \<noteq> [] \<and> CHR '':'' \<notin> set g"
  proof (rule one, intro allI impI)
    fix i
    show "Suc i < length (join '':'' gs) \<Longrightarrow> \<not> (join '':'' gs ! i = CHR '':'' \<and> join '':'' gs ! Suc i = CHR '':'')"
      using g
    proof (induction "'':''" gs arbitrary: i rule: join.induct)
      case (2 x)
      then show ?case by (auto dest: nth_mem)
    next
      case (3 x y ys)
      let ?r = "join '':'' (y # ys)"
      have r: "?r \<noteq> []" "hd ?r \<noteq> CHR '':''"
        using "3.prems"(2) by (cases ys; cases y; auto)+
      consider "Suc i < length x" | "Suc i = length x" | "i = length x" | j where "i = Suc (length x + j)"
        by (metis add_Suc_right less_iff_Suc_add linorder_neqE_nat not_less_eq)
      then show ?case
      proof cases
        case 2
        then have "x ! i \<noteq> CHR '':''" using "3.prems"(2) nth_mem [of i x] by fastforce
        then show ?thesis using 2 by (auto simp: nth_append)
      next
        case 4
        then show ?thesis using "3.hyps"(1) [of j] "3.prems" by (auto simp: nth_append)
      qed (use r "3.prems" in \<open>auto simp: nth_append hd_conv_nth dest: nth_mem\<close>)
    qed simp
  qed
qed

lemma parse_ipv6_text:
  assumes "length ws = 8" and w: "\<forall>w \<in> set ws. w < 65536"
  shows "parseIPv6 (join '':'' (map hex_string ws)) = Some ws"
proof -
  let ?x = "join '':'' (map hex_string ws)"
  have jc: "set (join '':'' gs) \<subseteq> insert CHR '':'' (\<Union> (set ` set gs))" for gs
    by (induction "'':''" gs rule: join.induct) auto
  have hc: "hex_colon c" if "c \<in> set ?x" for c
    using that jc [of "map hex_string ws"] by (auto simp: hex_colon_def dest: hex_string_hex)
  have "CHR ''.'' \<notin> set ?x" using hc [of "CHR ''.''"] by (auto simp: hex_colon_def is_hex_def is_digit_def code_def)
  moreover have "split_dcolon ?x [] = [?x]"
    using split_dcolon_groups [of "map hex_string ws" "[]"] hex_string_hex hex_facts(3) by auto
  moreover have ne: "?x \<noteq> []" using assms(1) by (cases ws; cases "tl ws") auto
  moreover have "split_on CHR '':'' ?x = map hex_string ws"
    using assms(1) hex_string_hex hex_facts(3) by (intro split_on_join) auto
  ultimately show ?thesis
    using parse_words_hex [OF w] hc assms(1)
    by (simp add: parseIPv6_def mapped_needs_dot parse_groups_def Let_def list_all_iff or_zero_string_def)
qed

text \<open>C10. The text of eight 16-bit words in hexadecimal, joined by colons, is parsed back to the words by
  \<open>parseIPv6\<close>.\<close>

theorem parseIPv6_round_trip:
  assumes "length ws = 8" and w: "\<forall>w \<in> set ws. w < 65536"
  shows "parseIPv6 (join '':'' (map hex_string ws)) = Some ws"
  using assms by (rule parse_ipv6_text)

theorem parseIPv6_round_trip_witness:
  "parseIPv6 (join '':'' (map hex_string [0x2001, 0xdb8, 0, 0, 0, 0, 0, 0x10])) = Some [0x2001, 0xdb8, 0, 0, 0, 0, 0, 0x10]"
  by (rule parseIPv6_round_trip) simp_all


section \<open>The mark on the field\<close>

text \<open>A datatype that fails leaves the field marked, one that succeeds never adds the mark.\<close>

definition marks :: "vctx \<Rightarrow> bool \<times> vctx \<Rightarrow> bool" where
  "marks c r \<longleftrightarrow> (if fst r then v_invalid (snd r) \<longrightarrow> v_invalid c else v_invalid (snd r))"

lemma marks_assert [simp]: "marks c (assert b m d)"
  by (simp add: marks_def assert_def)

lemma marks_asserts [simp]: "marks c (asserts b m d)"
  by (simp add: asserts_def)

lemma marks_checked [simp]: "marks c (checked f m d)"
  by (simp add: checked_def split_beta)

lemma marks_True [simp]: "marks c (True, c)"
  by (simp add: marks_def)

lemmas leaf_defs = t_integer_def t_uinteger_def t_float_def t_ufloat_def t_ipaddr_def t_ip4addr_def t_ip6addr_def
  t_ip4prefix_def t_ip6prefix_def t_cidr_def t_cidr4_def t_cidr6_def t_ipnet4_def t_ipnet6_def t_ip6hostid_def
  t_ipmask_def t_ipmask4_def t_ipmask6_def t_port_def t_portrange_def t_macaddr_def t_host_def t_hostname_def
  t_network_def t_hostport_def t_ip4addrport_def t_ipaddrport_def t_wpakey_def t_wepkey_def t_uciname_def
  t_netdevname_def t_range_def t_min_def t_max_def t_length_def t_rangelength_def t_minlength_def t_maxlength_def
  t_phonedigit_def t_timehhmmss_def t_timehhmm_def t_dateyyyymmdd_def t_hexstring_def

lemma map_of_all: "map_of l x = Some r \<Longrightarrow> list_all P (map snd l) \<Longrightarrow> P r"
  by (induction l) (auto split: if_splits)

lemma run_leaf_marks: "run_leaf name args c = Some r \<Longrightarrow> marks c r"
  unfolding run_leaf_def Let_def map_option_eq_Some
  by (elim exE conjE, hypsubst, erule map_of_all)
    (simp only: list.map snd_conv list.pred_inject leaf_defs Let_def marks_checked marks_asserts marks_True pure_def simp_thms
      split: if_split option.split)

declare run_type.simps [simp del]

lemma run_or_marks: "run_or as errors c = Ret r \<Longrightarrow> marks d r"
proof (induction as arbitrary: errors c rule: length_induct)
  case (1 as)
  show ?case
  proof (cases as)
    case Nil
    then show ?thesis using 1 by auto
  next
    case (Cons t rest)
    have "length (drop 1 rest) < length as" "length rest < length as" by (simp_all add: Cons)
    then show ?thesis
      using 1 by (cases t) (auto simp: Cons jbind_eq_Ret split: if_splits dest: spec [of _ "drop 1 rest"])
  qed
qed

lemma run_and_marks: "run_and as c = Ret r \<Longrightarrow> marks d r"
proof (induction as arbitrary: c rule: length_induct)
  case (1 as)
  show ?case
  proof (cases as)
    case Nil
    then show ?thesis using 1 by auto
  next
    case (Cons t rest)
    have "length (drop 1 rest) < length as" "length rest < length as" by (simp_all add: Cons)
    then show ?thesis
      using 1 by (cases t) (auto simp: Cons jbind_eq_Ret split: if_splits dest: spec [of _ "drop 1 rest"])
  qed
qed

lemma run_list_marks: "run_list f sub ts c = Ret r \<Longrightarrow> marks d r"
  by (induction ts arbitrary: c) (auto simp: jbind_eq_Ret split: if_splits)

lemma run_type_marks: "run_type name args c = Ret r \<Longrightarrow> marks c r"
proof (induction "size_list size args" arbitrary: name args rule: less_induct)
  case less
  show ?case
  proof (cases "run_leaf name args c")
    case (Some q)
    then show ?thesis using less.prems run_leaf_marks by (simp add: run_type.simps [of name])
  next
    case None
    have sub: "marks c r" if "args = TFun f # rest" "args_of rest = Ret l" "run_type f l c = Ret r" for f rest l
      using that less.hyps [of l f] args_of_size [of rest l] by simp
    show ?thesis
      using less.prems None sub
      by (simp add: run_type.simps [of name] jbind_eq_Ret Let_def split: if_splits list.splits tok.splits)
        (auto intro: run_or_marks run_and_marks run_list_marks)
  qed
qed


text \<open>C23. Validating an attached field marks it exactly when the value is rejected, whatever the datatype
  expression, and reports the outcome with its last event and a tooltip that is present exactly on failure.\<close>

theorem validate_marks_field:
  assumes "validate vstack optional vfunc field c = Ret (valid, c')" and "f_attached field"
  shows "(v_invalid c' \<longleftrightarrow> \<not> valid) \<and> (v_tooltip c' = None \<longleftrightarrow> valid) \<and>
    last (v_events c') = (if valid then ''validation-success'' else ''validation-failure'')"
proof -
  define c0 where "c0 = c\<lparr>v_invalid := False, v_value := (case f_value field of Some v \<Rightarrow> v | None \<Rightarrow> []), v_error := None\<rparr>"
  from assms obtain b c1 where
    1: "(if v_value c0 = [] then Ret (asserts optional ''non-empty value'' c0) else run_stack vstack c0) = Ret (b, c1)" and
    2: "(if \<not> b then Ret (False, fail_event (message ''Expecting: %s'' [error_param c1]) c1)
         else (case Option.bind vfunc (\<lambda>f. f (v_value c1)) of
                 Some m \<Rightarrow> Ret (False, fail_event m (snd (assert False (Some m) c1)))
               | None \<Rightarrow> Ret (True, c1\<lparr>v_tooltip := None, v_events := v_events c1 @ [''validation-success'']\<rparr>))) = Ret (valid, c')"
    unfolding validate_def Let_def c0_def [symmetric] by (auto simp: jbind_eq_Ret)
  have "marks c0 (b, c1)"
  proof (cases "v_value c0 = []")
    case True
    then show ?thesis using 1 marks_asserts [of c0 optional "''non-empty value''" c0] by simp
  next
    case False
    then show ?thesis using 1 run_type_marks
      by (auto simp: run_stack_def jbind_eq_Ret split: list.splits tok.splits)
  qed
  then have "if b then \<not> v_invalid c1 else v_invalid c1" by (simp add: marks_def c0_def split: if_splits)
  then show ?thesis using 2 by (auto simp: fail_event_def assert_def split: if_splits option.splits)
qed

definition blank_field :: vctx where
  "blank_field = \<lparr>v_value = [], v_error = None, v_invalid = False, v_islist = False, v_tooltip = None, v_events = [], v_siblings = []\<rparr>"

definition field_of :: "string \<Rightarrow> vfield" where
  "field_of v = \<lparr>f_attached = True, f_value = Some v\<rparr>"

text \<open>The verdict on a value under a datatype expression.\<close>

definition verdict :: "string \<Rightarrow> string \<Rightarrow> bool jsret" where
  "verdict expr v = jbind (compile expr) (\<lambda>vstack. jbind (validate vstack False None (field_of v) blank_field) (\<lambda>(b, _). Ret b))"

theorem validate_marks_field_witness:
  "\<exists>c'. validate [TFun ''port'', TNull] False None (field_of ''-1'') blank_field = Ret (False, c') \<and> v_invalid c' \<and>
     v_tooltip c' \<noteq> None \<and> last (v_events c') = ''validation-failure''"
proof -
  let ?r = "validate [TFun ''port'', TNull] False None (field_of ''-1'') blank_field"
  have "case ?r of Ret (b, _) \<Rightarrow> \<not> b | _ \<Rightarrow> False" by code_simp
  then obtain c' where c': "?r = Ret (False, c')" by (auto split: jsret.splits)
  moreover have "f_attached (field_of ''-1'')" by (simp add: field_of_def)
  ultimately show ?thesis using validate_marks_field [OF c'] by auto
qed

lemma rlang_star_all: "\<forall>c \<in> set s. p c \<Longrightarrow> rlang (RStar (RChr p)) s t"
proof (induction s)
  case (Cons c s)
  then show ?case using lang_star1 [of "[c]" "RChr p" s t] by (auto intro: rlang.intros)
qed (rule lang_star0)

lemma rlang_plus_all:
  assumes "s \<noteq> []" and "\<forall>c \<in> set s. p c"
  shows "rlang (RPlus (RChr p)) s t"
proof -
  obtain c u where s: "s = c # u" using assms(1) by (cases s) auto
  then have "rlang (RSeq (RChr p) (RStar (RChr p))) ([c] @ u) t"
    using assms(2) by (intro lang_seq rlang_star_all) (auto intro: rlang.intros)
  then show ?thesis by (simp add: RPlus_def s)
qed

lemma integer_digits:
  assumes "s \<noteq> []" and "\<forall>c \<in> set s. is_digit c"
  shows "test integer_re s"
proof -
  have "rlang (RSeq digits REnd) (s @ []) []"
    unfolding digits_def by (rule lang_seq) (simp_all add: rlang_plus_all assms lang_end)
  then have "rlang (RSeq (ROpt (RLit CHR ''-'')) (RSeq digits REnd)) ([] @ s) []"
    by (intro lang_seq) (auto simp: ROpt_def intro: rlang.intros)
  then show ?thesis unfolding test_iff_rlang integer_re_def RCat.simps by (intro exI [of _ s] exI [of _ "[]"]) simp
qed

lemma portrange_verdicts:
  "fst (t_portrange (c\<lparr>v_value := dec_string a @ ''-'' @ dec_string b\<rparr>)) \<longleftrightarrow> a \<le> b \<and> b \<le> 65535"
  "fst (t_portrange (c\<lparr>v_value := dec_string a\<rparr>)) \<longleftrightarrow> a \<le> 65535"
proof -
  let ?s = "dec_string a @ CHR ''-'' # dec_string b"
  have d: "repeats digits is_digit 1 None" unfolding digits_def by (rule repeats_plus)
  have nd: "\<not> is_digit CHR ''-''" by (simp add: is_digit_def code_def)
  have r: "rmatch portrange_re s = (case dropWhile is_digit s of [] \<Rightarrow> []
      | x # t \<Rightarrow> if x = CHR ''-'' \<and> 1 \<le> length (takeWhile is_digit s)
                 then map (\<lambda>(ds, u). ((1, takeWhile is_digit s) # ds, u))
                   (if dropWhile is_digit t = [] \<and> 1 \<le> length t then [([(2, t)], [])] else []) else [])" for s
  proof -
    have p: "portrange_re = RSeq (RGrp 1 digits) (RSeq (RChr (\<lambda>x. x = CHR ''-'')) (RSeq (RGrp 2 digits) REnd))"
      by (simp add: portrange_re_def RLit_def)
    show ?thesis unfolding p
      by (subst rmatch_run_char [OF d]) (use nd in \<open>auto simp only: rmatch_run_end [OF d] fits_simps\<close>)
  qed
  have run: "takeWhile is_digit ?s = dec_string a" "dropWhile is_digit ?s = CHR ''-'' # dec_string b"
    "dropWhile is_digit (dec_string n) = []" for n
    using dec_string_digits nd by (auto simp: takeWhile_run dropWhile_run)
  have ne: "1 \<le> length (dec_string n)" for n by (simp add: Suc_le_eq)
  have "exec portrange_re ?s = Some [(1, dec_string a), (2, dec_string b)]"
    unfolding exec_def r by (simp only: run list.case simp_thms if_True ne) simp
  moreover have q: "(of_nat b :: rat) \<le> 65535 \<longleftrightarrow> b \<le> 65535" for b by (metis of_nat_le_iff of_nat_numeral)
  ultimately show "fst (t_portrange (c\<lparr>v_value := dec_string a @ ''-'' @ dec_string b\<rparr>)) \<longleftrightarrow> a \<le> b \<and> b \<le> 65535"
    by (simp add: t_portrange_def cap_def to_number_dec asserts_def assert_def)
  have "exec portrange_re (dec_string a) = None"
    unfolding exec_def r by (simp only: run list.case)
  moreover have "test integer_re (dec_string a)" using integer_digits [of "dec_string a"] dec_string_digits by simp
  ultimately show "fst (t_portrange (c\<lparr>v_value := dec_string a\<rparr>)) \<longleftrightarrow> a \<le> 65535"
    using q by (simp add: t_portrange_def checked_def t_port_def in_range_def parseInteger_def to_number_dec asserts_def assert_def)
qed

text \<open>C32. Port ranges: \<open>a-b\<close> is accepted exactly when \<open>a\<close> does not exceed \<open>b\<close> and
  \<open>b\<close> is a port number, a single number exactly when it is one.\<close>

theorem portrange_accepts:
  "(fst (t_portrange (c\<lparr>v_value := dec_string a @ ''-'' @ dec_string b\<rparr>)) \<longleftrightarrow> a \<le> b \<and> b \<le> 65535) \<and>
   (fst (t_portrange (c\<lparr>v_value := dec_string a\<rparr>)) \<longleftrightarrow> a \<le> 65535)"
  using portrange_verdicts by blast

section \<open>Values the datatypes misjudge\<close>

lemma verdict_mac: "verdict ''macaddr'' ''01:00:5e:00:00:fb'' = Ret False" "verdict ''macaddr'' ''0f:00:5e:00:00:fb'' = Ret True"
  by code_simp+

lemma verdict_or:
  "verdict ''cidr4'' ''1.2.3.4/33'' = Ret False"
  "verdict ''uinteger'' ''1.2.3.4/33'' = Ret False"
  "verdict ''or(cidr4,uinteger)'' ''1.2.3.4/33'' = Ret True"
  by code_simp+

lemma verdict_list: "verdict ''list(port)'' ''  '' = Throw ''TypeError''"
  by code_simp

lemma verdict_time: "verdict ''timehhmm'' ''69:69'' = Ret True"
  by code_simp

lemma verdict_date: "verdict ''dateyyyymmdd'' ''2016-02-29junk'' = Ret True"
  by code_simp


end
