(* ===== verification/JsonConfig.thy ===== *)
theory JsonConfig
  imports FirewallLaws
begin

text \<open>
  The data source of \<open>form.JSONMap\<close>: class \<open>CBIJSONConfig\<close> of \<open>form.js\<close>, which
  keeps the sections of a plain JavaScript object behind the interface of the configuration cache.
  \<open>naturalCompare\<close> is the collator of the browser and an argument here.

  Besides the operations the theory proves that the class is a second provider of the
  \<open>config_store\<close> interface, that its constructor leaves consistent sections, and what
  \<open>add\<close> and \<open>move\<close> do to them.
\<close>

section \<open>Input\<close>

text \<open>One object of the input: its \<open>.name\<close> when that is a string, its \<open>.index\<close>, and
  its other properties.\<close>

record jitem =
  ji_name :: "string option"
  ji_index :: "int option"
  ji_opts :: "uval jsobj"

text \<open>A property of the input: an array (\<^const>\<open>None\<close> for an element that is no object), an object,
  or anything else.\<close>

datatype jdata = JArray "jitem option list" | JObject jitem | JOther

section \<open>State\<close>

text \<open>\<open>j_index\<close> is \<^const>\<open>None\<close> where the property is undefined or not a number.\<close>

record jsec =
  j_type :: string
  j_name :: string
  j_anonymous :: bool
  j_index :: "int option"
  j_opts :: "uval jsobj"

type_synonym json = "jsec jsobj"

text \<open>\<open>Array.prototype.sort\<close> with a comparator: a stable sort.\<close>

fun insort_by :: "('a \<Rightarrow> 'a \<Rightarrow> int) \<Rightarrow> 'a \<Rightarrow> 'a list \<Rightarrow> 'a list" where
  "insort_by cmp x [] = [x]"
| "insort_by cmp x (y # ys) = (if cmp x y \<le> 0 then x # y # ys else y # insort_by cmp x ys)"

definition sort_by :: "('a \<Rightarrow> 'a \<Rightarrow> int) \<Rightarrow> 'a list \<Rightarrow> 'a list" where
  "sort_by cmp xs = foldr (insort_by cmp) xs []"

section \<open>Constructor\<close>

definition init_item :: "string \<Rightarrow> jitem option \<Rightarrow> json \<times> string list \<times> nat \<Rightarrow> json \<times> string list \<times> nat" where
  "init_item ty item s =
     (case (item, s) of
        (None, _) \<Rightarrow> s
      | (Some it, (d, ids, num)) \<Rightarrow>
          let (name, anonymous) = (case ji_name it of Some n \<Rightarrow> (n, False) | None \<Rightarrow> (ty @ dec_string num, True))
          in (oset name \<lparr>j_type = ty, j_name = name, j_anonymous = anonymous, j_index = Some (int num), j_opts = ji_opts it\<rparr> d,
              (if oget d name = None then ids @ [name] else ids), Suc num))"

definition init_type :: "string \<times> jdata \<Rightarrow> json \<times> string list \<times> nat \<Rightarrow> json \<times> string list \<times> nat" where
  "init_type td s =
     (case snd td of
        JArray items \<Rightarrow> fold (init_item (fst td)) items s
      | JObject it \<Rightarrow>
          (case s of (d, ids, num) \<Rightarrow>
             (oset (fst td) \<lparr>j_type = fst td, j_name = fst td, j_anonymous = False, j_index = ji_index it, j_opts = ji_opts it\<rparr> d,
              ids @ [fst td], Suc num))
      | JOther \<Rightarrow> s)"

definition index_of :: "json \<Rightarrow> string \<Rightarrow> int" where
  "index_of d a = (case Option.bind (oget d a) j_index of Some i \<Rightarrow> i | None \<Rightarrow> 9999)"

definition init_compare :: "(string \<Rightarrow> string \<Rightarrow> int) \<Rightarrow> json \<Rightarrow> string \<Rightarrow> string \<Rightarrow> int" where
  "init_compare naturalCompare d a b =
     (if index_of d a \<noteq> index_of d b then index_of d a - index_of d b else naturalCompare a b)"

definition jset_index :: "string \<times> int \<Rightarrow> json \<Rightarrow> json" where
  "jset_index ni d = (case oget d (fst ni) of None \<Rightarrow> d | Some s \<Rightarrow> oset (fst ni) (s\<lparr>j_index := Some (snd ni)\<rparr>) d)"

definition jset_indexes :: "string list \<Rightarrow> json \<Rightarrow> json" where
  "jset_indexes ids d = fold jset_index (zip ids (map int [0..<length ids])) d"

definition json_init :: "(string \<Rightarrow> string \<Rightarrow> int) \<Rightarrow> (string \<times> jdata) list \<Rightarrow> json" where
  "json_init naturalCompare data =
     (let (d, ids, num) = fold init_type data ([], [], 0)
      in jset_indexes (sort_by (init_compare naturalCompare d) ids) d)"

section \<open>Operations\<close>

definition json_prop :: "jsec \<Rightarrow> string \<Rightarrow> uval option" where
  "json_prop s k =
     (if k = ''.type'' then Some (UStr (j_type s))
      else if k = ''.name'' then Some (UStr (j_name s))
      else if k = ''.anonymous'' then Some (UBool (j_anonymous s))
      else if k = ''.index'' then map_option UNum (j_index s)
      else oget (j_opts s) k)"

text \<open>A whole section (\<open>get\<close> without an option) is \<^term>\<open>oget d sid\<close>.\<close>

definition json_get :: "string option \<Rightarrow> string \<Rightarrow> json \<Rightarrow> uval option" where
  "json_get sid opt d =
     (case Option.bind sid (oget d) of
        None \<Rightarrow> None
      | Some s \<Rightarrow>
          (case json_prop s opt of
             Some (UList l) \<Rightarrow> Some (UList l)
           | Some v \<Rightarrow> Some (UStr (ustr v))
           | None \<Rightarrow> None))"

definition json_store :: "uval option \<Rightarrow> string \<Rightarrow> uval jsobj \<Rightarrow> uval jsobj" where
  "json_store v0 opt m =
     (case v0 of
        None \<Rightarrow> odel opt m
      | Some (UList l) \<Rightarrow> oset opt (UList l) m
      | Some v \<Rightarrow> oset opt (UStr (ustr v)) m)"

definition json_set :: "string option \<Rightarrow> string option \<Rightarrow> uval option \<Rightarrow> json \<Rightarrow> json" where
  "json_set sid opt v0 d =
     (case (sid, opt) of
        (Some i, Some k) \<Rightarrow>
          if take 1 k = ''.'' then d
          else (case oget d i of None \<Rightarrow> d | Some s \<Rightarrow> oset i (s\<lparr>j_opts := json_store v0 k (j_opts s)\<rparr>) d)
      | _ \<Rightarrow> d)"

definition json_unset :: "string option \<Rightarrow> string option \<Rightarrow> json \<Rightarrow> json" where
  "json_unset sid opt d = json_set sid opt None d"

definition index_compare :: "jsec \<Rightarrow> jsec \<Rightarrow> int" where
  "index_compare a b = (case (j_index a, j_index b) of (Some i, Some j) \<Rightarrow> i - j | _ \<Rightarrow> 0)"

definition json_sections :: "string option \<Rightarrow> json \<Rightarrow> jsec list" where
  "json_sections ty d =
     sort_by index_compare (filter (\<lambda>s. case ty of None \<Rightarrow> True | Some t \<Rightarrow> j_type s = t) (map snd d))"

definition max_index :: "json \<Rightarrow> int option" where
  "max_index d = fold (\<lambda>(_, s) m. case (m, j_index s) of (Some a, Some b) \<Rightarrow> Some (max a b) | _ \<Rightarrow> None) d (Some 0)"

definition json_add :: "string \<Rightarrow> string option \<Rightarrow> json \<Rightarrow> string \<times> json" where
  "json_add ty name d =
     (let num = length (filter (\<lambda>(_, s). j_type s = ty) d);
          sid = (case name of Some n \<Rightarrow> if n \<noteq> [] then n else ty @ dec_string num | None \<Rightarrow> ty @ dec_string num)
      in (sid, if oget d sid \<noteq> None then d
               else oset sid \<lparr>j_type = ty, j_name = sid, j_anonymous = (name = None),
                              j_index = map_option (\<lambda>i. i + 1) (max_index d), j_opts = []\<rparr> d))"

definition json_remove :: "string \<Rightarrow> json \<Rightarrow> json" where
  "json_remove sid d = (if oget d sid \<noteq> None then odel sid d else d)"

text \<open>
  \<open>uci.move\<close> run on this class: \<open>resolveSID\<close> is the identity, the sections found are renumbered, and
  the last assignment, to \<open>this.state.reorder\<close>, dereferences a property the class does not have.
\<close>

fun insert_name :: "string \<Rightarrow> bool \<Rightarrow> string \<Rightarrow> string list \<Rightarrow> string list option" where
  "insert_name sid after x [] = None"
| "insert_name sid after x (s # ss) =
     (if s = sid then Some (if after then s # x # ss else x # s # ss) else map_option ((#) s) (insert_name sid after x ss))"

definition move_name :: "string option \<Rightarrow> string option \<Rightarrow> bool \<Rightarrow> string list \<Rightarrow> string list option" where
  "move_name sid1 sid2 after sa =
     (case sid1 of
        None \<Rightarrow> None
      | Some a \<Rightarrow>
          if a \<notin> set sa then None
          else (case sid2 of None \<Rightarrow> Some (remove1 a sa @ [a]) | Some b \<Rightarrow> insert_name b after a (remove1 a sa)))"

definition json_move :: "string option \<Rightarrow> string option \<Rightarrow> bool \<Rightarrow> json \<Rightarrow> bool jsret \<times> json" where
  "json_move sid1 sid2 after d =
     (case move_name sid1 sid2 after (map j_name (json_sections None d)) of
        None \<Rightarrow> (Ret False, d)
      | Some sa \<Rightarrow> (Throw ''TypeError'', jset_indexes sa d))"


section \<open>Invariant\<close>

definition json_wf :: "json \<Rightarrow> bool" where
  "json_wf d \<longleftrightarrow> owf d \<and> (\<forall>(k, s) \<in> set d. j_name s = k \<and> j_index s \<noteq> None)"

lemma json_wfD: "json_wf d \<Longrightarrow> oget d k = Some s \<Longrightarrow> j_name s = k \<and> j_index s \<noteq> None"
  by (auto simp: json_wf_def oget_Some)

lemma json_wfI:
  "owf d \<Longrightarrow> (\<And>k s. oget d k = Some s \<Longrightarrow> j_name s = k \<and> j_index s \<noteq> None) \<Longrightarrow> json_wf d"
  by (auto simp: json_wf_def oget_Some)

lemma json_wf_oset: "json_wf d \<Longrightarrow> j_name s = k \<Longrightarrow> j_index s \<noteq> None \<Longrightarrow> json_wf (oset k s d)"
  by (rule json_wfI) (auto simp: json_wf_def oget_Some split: if_splits dest: json_wfD)

lemma json_wf_set: "json_wf d \<Longrightarrow> json_wf (json_set sid opt v d)"
  by (auto simp: json_set_def intro!: json_wf_oset dest: json_wfD split: option.splits)

lemma json_get_remove: "oget (json_remove sid d) k = (if k = sid then None else oget d k)"
  by (auto simp: json_remove_def)

lemma json_wf_remove:
  assumes "json_wf d"
  shows "json_wf (json_remove sid d)"
proof (rule json_wfI)
  show "owf (json_remove sid d)" using assms by (simp add: json_remove_def json_wf_def)
  show "j_name s = k \<and> j_index s \<noteq> None" if "oget (json_remove sid d) k = Some s" for k s
    using that json_wfD [OF assms, of k s] by (simp add: json_get_remove split: if_splits)
qed

lemma max_index_Some: "(\<forall>(k, s) \<in> set d. j_index s \<noteq> None) \<Longrightarrow> \<exists>i. max_index d = Some i \<and> (\<forall>(k, s) \<in> set d. the (j_index s) \<le> i)"
proof -
  have "\<exists>i. fold (\<lambda>(_, s) m. case (m, j_index s) of (Some a, Some b) \<Rightarrow> Some (max a b) | _ \<Rightarrow> None) d (Some n) = Some i \<and>
      n \<le> i \<and> (\<forall>(k, s) \<in> set d. the (j_index s) \<le> i)"
    if "\<forall>(k, s) \<in> set d. j_index s \<noteq> None" for d :: json and n
    using that
  proof (induction d arbitrary: n)
    case (Cons p d)
    obtain k s b where p: "p = (k, s)" "j_index s = Some b" using Cons.prems by (cases p) auto
    from Cons.prems have "\<forall>(k, s) \<in> set d. j_index s \<noteq> None" by auto
    from Cons.IH [OF this, of "max n b"] show ?case by (auto simp: p)
  qed simp
  then show "(\<forall>(k, s) \<in> set d. j_index s \<noteq> None) \<Longrightarrow> ?thesis" unfolding max_index_def by blast
qed

lemma json_wf_add: "json_wf d \<Longrightarrow> json_wf (snd (json_add ty name d))"
proof -
  assume w: "json_wf d"
  then have "\<forall>(k, s) \<in> set d. j_index s \<noteq> None" by (auto simp: json_wf_def)
  then obtain i where "max_index d = Some i" using max_index_Some [of d] by auto
  with w show ?thesis by (auto simp: json_add_def Let_def intro!: json_wf_oset)
qed

lemma jset_indexes_get:
  "oget (jset_indexes ids d) k = map_option (\<lambda>s. case map_of (rev (zip ids (map int [0..<length ids]))) k of
     None \<Rightarrow> s | Some i \<Rightarrow> s\<lparr>j_index := Some i\<rparr>) (oget d k)"
proof -
  have "oget (fold jset_index nis d) k = map_option (\<lambda>s. case map_of (rev nis) k of
     None \<Rightarrow> s | Some i \<Rightarrow> s\<lparr>j_index := Some i\<rparr>) (oget d k)" for nis
  proof (induction nis arbitrary: d)
    case (Cons p nis)
    then show ?case
      by (cases p) (auto simp: jset_index_def map_add_def split: option.splits intro!: option.expand)
  qed (simp add: option.map_ident)
  then show ?thesis by (simp add: jset_indexes_def)
qed

lemma jset_indexes_owf: "owf d \<Longrightarrow> owf (jset_indexes ids d)"
proof -
  have "owf d \<Longrightarrow> owf (fold jset_index nis d)" for nis
    by (induction nis arbitrary: d) (auto simp: jset_index_def split: option.split)
  then show "owf d \<Longrightarrow> ?thesis" by (simp add: jset_indexes_def)
qed


section \<open>The interface\<close>

text \<open>
  What a form relies on in its data source, for the configuration it edits: a store of options of named sections.
  Every configuration of a \<open>config_store\<close> is one.
\<close>

locale section_store =
  fixes get :: "'s \<Rightarrow> string \<Rightarrow> string \<Rightarrow> 'v option"
    and put :: "string \<Rightarrow> string \<Rightarrow> 'v option \<Rightarrow> 's \<Rightarrow> 's"
    and ok :: "'s \<Rightarrow> string \<Rightarrow> bool"
    and valid :: "'s \<Rightarrow> bool"
    and storable :: "'v option \<Rightarrow> bool"
    and sname :: "string \<Rightarrow> bool"
    and oname :: "string \<Rightarrow> bool"
  assumes sget_put: "valid s \<Longrightarrow> ok s i \<Longrightarrow> oname k \<Longrightarrow> storable v \<Longrightarrow> sname i' \<Longrightarrow> oname k' \<Longrightarrow>
      get (put i k v s) i' k' = (if i' = i \<and> k' = k then v else get s i' k')"
    and svalid_put: "valid s \<Longrightarrow> valid (put i k v s)"
    and sok_put: "valid s \<Longrightarrow> ok (put i k v s) i' = ok s i'"
    and sok_sname: "ok s i \<Longrightarrow> sname i"
begin

text \<open>A sequence of writes, each to an existing section: the last write of an option is what is read.\<close>

lemma put_seq_valid:
  "valid s \<Longrightarrow> valid (fold (\<lambda>(i, k, v). put i k v) ws s) \<and> ok (fold (\<lambda>(i, k, v). put i k v) ws s) j = ok s j"
proof (induction ws arbitrary: s)
  case (Cons w ws)
  then show ?case by (cases w) (simp add: svalid_put sok_put)
qed simp

lemma get_put_seq:
  assumes "valid s" and "\<forall>(i, k, v) \<in> set ws. ok s i \<and> oname k \<and> storable v" and "sname i" "oname k"
  shows "get (fold (\<lambda>(i, k, v). put i k v) ws s) i k =
    (case map_of (rev (map (\<lambda>(i, k, v). ((i, k), v)) ws)) (i, k) of Some v \<Rightarrow> v | None \<Rightarrow> get s i k)"
  using assms(1,2)
proof (induction ws arbitrary: s)
  case (Cons w ws)
  obtain j l v where w: "w = (j, l, v)" by (cases w) auto
  have ok: "ok s j" "oname l" "storable v" using Cons.prems(2) by (auto simp: w)
  have "\<forall>(i, k, u) \<in> set ws. ok (put j l v s) i \<and> oname k \<and> storable u"
    using Cons.prems by (auto simp: sok_put)
  from Cons.IH [OF svalid_put [OF Cons.prems(1)] this] show ?case
    using sget_put [OF Cons.prems(1) ok assms(3,4)]
    by (auto simp: w map_add_def split: option.splits)
qed simp

end

sublocale config_store < sec: section_store "\<lambda>s. get s c" "put c" "\<lambda>s. ok s c" valid storable sname oname for c
  by unfold_locales (auto simp: get_put valid_put ok_put ok_sname)

definition json_storable :: "uval option \<Rightarrow> bool" where
  "json_storable v = (case v of Some (UBool _) \<Rightarrow> False | Some (UNum _) \<Rightarrow> False | _ \<Rightarrow> True)"

lemma json_get_set:
  assumes "oget d i \<noteq> None" and "plain_opt k" "plain_opt k'" "json_storable v"
  shows "json_get (Some i') k' (json_set (Some i) (Some k) v d) = (if i' = i \<and> k' = k then v else json_get (Some i') k' d)"
proof -
  obtain s where s: "oget d i = Some s" using assms(1) by auto
  have k: "take 1 k \<noteq> ''.''" using assms(2) by (simp add: plain_opt_def)
  have k': "k' \<noteq> ''.type''" "k' \<noteq> ''.name''" "k' \<noteq> ''.anonymous''" "k' \<noteq> ''.index''"
    using assms(3) by (auto simp: plain_opt_def)
  show ?thesis
    using assms(4) s k k'
    by (auto simp: json_get_def json_set_def json_prop_def json_store_def json_storable_def ustr_def split: option.splits uval.splits)
qed

interpretation jc: section_store "\<lambda>d i k. json_get (Some i) k d" "\<lambda>i k v. json_set (Some i) (Some k) v"
  "\<lambda>d i. oget d i \<noteq> None" json_wf json_storable "\<lambda>_. True" plain_opt
proof unfold_locales
  show "(oget (json_set (Some i) (Some k) v s) i' \<noteq> None) = (oget s i' \<noteq> None)" for s i k v i'
    by (auto simp: json_set_def split: option.split)
qed (simp_all add: json_get_set json_wf_set)


section \<open>Order\<close>

lemma set_insort_by: "set (insort_by cmp x ys) = insert x (set ys)"
  by (induction ys) auto

lemma set_sort_by [simp]: "set (sort_by cmp xs) = set xs"
  unfolding sort_by_def by (induction xs) (simp_all add: set_insort_by)

lemma distinct_insort_by: "distinct (insort_by cmp x ys) \<longleftrightarrow> x \<notin> set ys \<and> distinct ys"
  by (induction ys) (auto simp: set_insort_by)

lemma distinct_sort_by: "distinct (sort_by cmp xs) = distinct xs"
  unfolding sort_by_def
proof (induction xs)
  case (Cons x xs)
  then show ?case using set_sort_by [of cmp xs] by (simp add: distinct_insort_by sort_by_def)
qed simp

text \<open>A comparator that agrees with a key sorts by the key.\<close>

lemma sort_by_key:
  assumes "\<And>x y. x \<in> set xs \<Longrightarrow> y \<in> set xs \<Longrightarrow> cmp x y \<le> 0 \<longleftrightarrow> f x \<le> f y"
  shows "sort_by cmp xs = sort_key f xs"
  using assms
proof (induction xs)
  case (Cons x xs)
  have "insort_by cmp x ys = insort_key f x ys" if "set ys \<subseteq> set xs" for ys
    using that Cons.prems by (induction ys) auto
  moreover have "sort_by cmp xs = sort_key f xs" by (rule Cons.IH) (use Cons.prems in auto)
  ultimately show ?case by (simp add: sort_by_def)
qed (simp add: sort_by_def)

lemma position_lookup: "distinct ids \<Longrightarrow> n < length ids \<Longrightarrow> map_of (rev (zip ids (map int [0..<length ids]))) (ids ! n) = Some (int n)"
proof -
  assume a: "distinct ids" "n < length ids"
  let ?z = "zip ids (map int [0..<length ids])"
  have "distinct (map fst ?z)" using a(1) by simp
  then have "map_of (rev ?z) = map_of ?z" by (rule map_of_rev_distinct)
  moreover have "(ids ! n, int n) \<in> set ?z" using a(2) by (auto simp: set_zip intro!: exI [of _ n])
  ultimately show ?thesis using \<open>distinct (map fst ?z)\<close> by (simp add: map_of_eq_Some_iff)
qed

lemma json_sections_all: "json_sections None d = sort_by index_compare (map snd d)"
  by (simp add: json_sections_def)

text \<open>Numbering all sections in a given order makes \<open>sections\<close> return them in that order.\<close>

lemma sections_after_numbering:
  assumes "distinct ids" and "set ids = set (okeys d)" and o: "owf d" and n: "\<And>k s. oget d k = Some s \<Longrightarrow> j_name s = k"
  shows "map j_name (json_sections None (jset_indexes ids d)) = ids"
proof -
  let ?e = "jset_indexes ids d" and ?idx = "\<lambda>s. the (j_index s)"
  have oe: "owf ?e" by (rule jset_indexes_owf [OF o])
  have at: "\<exists>s. oget ?e (ids ! i) = Some s \<and> j_index s = Some (int i) \<and> j_name s = ids ! i" if "i < length ids" for i
  proof -
    have "oget d (ids ! i) \<noteq> None" using assms(2) that by (metis nth_mem oget_None)
    then show ?thesis using n position_lookup [OF assms(1) that] by (auto simp: jset_indexes_get)
  qed
  have keys: "oget ?e k \<noteq> None \<longleftrightarrow> k \<in> set ids" for k
    using assms(2) by (simp add: jset_indexes_get oget_None [symmetric] del: not_None_eq) (metis oget_None)
  define l where "l = map (\<lambda>k. the (oget ?e k)) ids"
  have nl: "map j_name l = ids" unfolding l_def
    by (rule nth_equalityI) (use at in force)+
  have il: "map ?idx l = map int [0..<length ids]" unfolding l_def
    by (rule nth_equalityI) (use at in force)+
  have mem: "(k, s) \<in> set ?e \<Longrightarrow> s \<in> set l \<and> k = j_name s \<and> j_index s \<noteq> None" for k s
  proof -
    assume "(k, s) \<in> set ?e"
    then have g: "oget ?e k = Some s" using oe by (simp add: oget_Some)
    then obtain i where "i < length ids" "ids ! i = k" using keys [of k] by (auto simp: in_set_conv_nth)
    then show ?thesis using at [of i] g by (auto simp: l_def intro!: image_eqI [of _ _ k])
  qed
  have sl: "set (map snd ?e) = set l"
  proof
    show "set (map snd ?e) \<subseteq> set l" using mem by auto
    show "set l \<subseteq> set (map snd ?e)"
    proof
      fix s assume "s \<in> set l"
      then obtain k where "k \<in> set ids" "s = the (oget ?e k)" by (auto simp: l_def)
      then have "(k, s) \<in> set ?e" using keys [of k] oe by (auto simp: oget_Some [symmetric])
      then show "s \<in> set (map snd ?e)" by force
    qed
  qed
  have "distinct (map snd ?e)"
  proof -
    have "map fst ?e = map j_name (map snd ?e)" using mem by auto
    then show ?thesis using oe distinct_map by (metis owf_def)
  qed
  moreover have dl: "distinct l" using nl assms(1) by (metis distinct_map)
  ultimately have "mset (map snd ?e) = mset l" using sl set_eq_iff_mset_eq_distinct by blast
  moreover have "inj_on ?idx (set l)"
    using il by (metis (mono_tags, lifting) distinct_map distinct_upt inj_of_nat inj_on_subset subset_UNIV)
  ultimately have "sort_key ?idx (map snd ?e) = l"
    using il by (intro sort_key_inj_key_eq) (simp_all only: sl sorted_map, simp add: sorted_wrt_map)
  moreover have "sort_by index_compare (map snd ?e) = sort_key ?idx (map snd ?e)"
  proof (rule sort_by_key)
    fix x y assume "x \<in> set (map snd ?e)" "y \<in> set (map snd ?e)"
    then obtain i j where "j_index x = Some i" "j_index y = Some j" using mem by fastforce
    then show "index_compare x y \<le> 0 \<longleftrightarrow> ?idx x \<le> ?idx y" by (simp add: index_compare_def)
  qed
  ultimately show ?thesis using nl by (simp add: json_sections_def)
qed


section \<open>Constructor and operations\<close>

definition init_ok :: "json \<times> string list \<times> nat \<Rightarrow> bool" where
  "init_ok s = (case s of (d, ids, num) \<Rightarrow> owf d \<and> set ids = set (okeys d) \<and> (\<forall>k x. oget d k = Some x \<longrightarrow> j_name x = k))"

lemma init_item_ok: "init_ok s \<Longrightarrow> init_ok (init_item ty it s)"
  by (cases s; cases it; cases "ji_name (the it)")
    (auto simp: init_ok_def init_item_def okeys_oset oget_None Let_def)

lemma init_type_ok:
  assumes "init_ok s"
  shows "init_ok (init_type td s)"
proof (cases "snd td")
  case (JArray items)
  have "init_ok (fold (init_item ty) items s)" for ty using assms by (induction items arbitrary: s) (simp_all add: init_item_ok)
  then show ?thesis by (simp add: init_type_def JArray)
next
  case (JObject it)
  then show ?thesis using assms by (cases s) (auto simp: init_type_def init_ok_def okeys_oset)
qed (simp add: init_type_def assms)

lemma jset_indexes_wf:
  assumes "owf d" "set ids = set (okeys d)" "\<And>k x. oget d k = Some x \<Longrightarrow> j_name x = k"
  shows "json_wf (jset_indexes ids d)"
proof (rule json_wfI)
  show "owf (jset_indexes ids d)" by (rule jset_indexes_owf [OF assms(1)])
  fix k s assume g: "oget (jset_indexes ids d) k = Some s"
  then obtain x where x: "oget d k = Some x" by (auto simp: jset_indexes_get)
  then have "k \<in> set ids" using assms(2) oget_None [of d k] by auto
  then have "k \<in> fst ` set (zip ids (map int [0..<length ids]))" by (metis length_map length_upt map_fst_zip minus_nat.diff_0 set_map)
  then have "map_of (rev (zip ids (map int [0..<length ids]))) k \<noteq> None" by (simp add: map_of_eq_None_iff)
  then show "j_name s = k \<and> j_index s \<noteq> None" using g x assms(3) by (auto simp: jset_indexes_get)
qed

lemma json_init_wf: "json_wf (json_init ncmp data)"
proof -
  have "init_ok (fold init_type data s)" if "init_ok s" for s using that by (induction data arbitrary: s) (simp_all add: init_type_ok)
  moreover have "init_ok ([], [], 0)" by (simp add: init_ok_def okeys_def)
  moreover obtain d ids num where "fold init_type data ([], [], 0) = (d, ids, num)" by (cases "fold init_type data ([], [], 0)") auto
  ultimately have "init_ok (d, ids, num)" by metis
  then show ?thesis
    unfolding json_init_def \<open>fold init_type data ([], [], 0) = (d, ids, num)\<close>
    by (auto simp: init_ok_def intro!: jset_indexes_wf)
qed

lemma insert_name_perm: "insert_name b after x ss = Some ys \<Longrightarrow> set ys = insert x (set ss) \<and> (distinct ys \<longleftrightarrow> x \<notin> set ss \<and> distinct ss)"
  by (induction ss arbitrary: ys) (auto split: if_splits)

lemma move_name_perm:
  assumes "move_name a b after sa = Some ys" "distinct sa"
  shows "set ys = set sa \<and> distinct ys"
  using assms insert_name_perm
  by (fastforce simp: move_name_def split: option.splits if_splits)

lemma json_section_names:
  assumes "json_wf d"
  shows "distinct (map j_name (json_sections None d)) \<and> set (map j_name (json_sections None d)) = set (okeys d)"
proof -
  have m: "map j_name (map snd d) = okeys d" using assms by (auto simp: json_wf_def okeys_def)
  have "distinct (map j_name (map snd d))" unfolding m using assms by (simp add: json_wf_def owf_def okeys_def)
  then have "distinct (map snd d)" "inj_on j_name (set (map snd d))" unfolding distinct_map [of j_name] by blast+
  then have "distinct (map j_name (sort_by index_compare (map snd d)))"
    unfolding distinct_map [of j_name] by (simp only: distinct_sort_by set_sort_by)
  moreover have "set (map j_name (sort_by index_compare (map snd d))) = set (map j_name (map snd d))"
    by (simp only: set_map set_sort_by)
  ultimately show ?thesis by (simp only: json_sections_all m simp_thms)
qed

lemma json_move_cases:
  assumes "json_wf d"
  shows "case move_name a b after (map j_name (json_sections None d)) of
      None \<Rightarrow> json_move a b after d = (Ret False, d)
    | Some sa \<Rightarrow> fst (json_move a b after d) = Throw ''TypeError'' \<and> json_wf (snd (json_move a b after d)) \<and>
        map j_name (json_sections None (snd (json_move a b after d))) = sa"
proof (cases "move_name a b after (map j_name (json_sections None d))")
  case (Some sa)
  have "distinct sa" "set sa = set (okeys d)"
    using move_name_perm [OF Some] json_section_names [OF assms] by auto
  then show ?thesis
    using sections_after_numbering [of sa d] jset_indexes_wf [of d sa] assms json_wfD [OF assms]
    by (simp add: json_move_def Some json_wf_def)
qed (simp add: json_move_def)


text \<open>C20. The sections of a JSON data source stay consistent: the constructor and every operation leave each section
  stored under its own name and with a position.\<close>

theorem json_invariant:
  "json_wf (json_init ncmp data) \<and>
   (json_wf d \<longrightarrow> json_wf (json_set sid opt v d) \<and> json_wf (json_remove i d) \<and> json_wf (snd (json_add ty name d)) \<and>
     json_wf (snd (json_move a b after d)))"
  using json_init_wf json_wf_set json_wf_remove json_wf_add json_move_cases [of d a b after]
  by (auto split: option.splits)

definition json_sample :: json where
  "json_sample = json_init (\<lambda>_ _. 0)
     [(''peer'', JArray [Some \<lparr>ji_name = None, ji_index = None, ji_opts = []\<rparr>, Some \<lparr>ji_name = None, ji_index = None, ji_opts = []\<rparr>])]"

lemma json_sample_wf: "json_wf json_sample"
  unfolding json_sample_def by (rule json_init_wf)

theorem json_invariant_witness:
  "json_wf (json_init (\<lambda>_ _. 0) []) \<and> json_wf (json_remove ''peer0'' json_sample) \<and> json_wf (snd (json_move (Some ''peer0'') None False json_sample))"
  using json_invariant [of "\<lambda>_ _. 0" "[]" json_sample None None None "''peer0''" "[]" None "Some ''peer0''" None False] json_sample_wf
  by simp



text \<open>Adding a section to a JSON data source creates an empty section after all others when the chosen name is
  free, and returns the name of the existing section otherwise; after a removal the generated name can be that of an
  existing section, so that nothing is added.\<close>

theorem json_add_behaviour:
  assumes "json_wf d"
  shows "(oget d (fst (json_add ty name d)) = None \<longrightarrow>
      (\<exists>s. oget (snd (json_add ty name d)) (fst (json_add ty name d)) = Some s \<and> j_type s = ty \<and> j_opts s = [] \<and>
        (\<forall>(k, x) \<in> set d. the (j_index x) < the (j_index s)))) \<and>
    (oget d (fst (json_add ty name d)) \<noteq> None \<longrightarrow> snd (json_add ty name d) = d) \<and>
    json_add ''peer'' None (json_remove ''peer0'' json_sample) = (''peer1'', json_remove ''peer0'' json_sample)"
proof (intro conjI impI)
  have "\<forall>(k, s) \<in> set d. j_index s \<noteq> None" using assms by (auto simp: json_wf_def)
  then obtain i where i: "max_index d = Some i" "\<forall>(k, s) \<in> set d. the (j_index s) \<le> i"
    using max_index_Some [of d] by auto
  then have "\<forall>(k, s) \<in> set d. the (j_index s) < i + 1" by auto
  then show "\<exists>s. oget (snd (json_add ty name d)) (fst (json_add ty name d)) = Some s \<and> j_type s = ty \<and> j_opts s = [] \<and>
        (\<forall>(k, x) \<in> set d. the (j_index x) < the (j_index s))" if "oget d (fst (json_add ty name d)) = None"
    using that i(1) by (auto simp: json_add_def Let_def)
  show "snd (json_add ty name d) = d" if "oget d (fst (json_add ty name d)) \<noteq> None"
    using that by (simp add: json_add_def Let_def)
  show "json_add ''peer'' None (json_remove ''peer0'' json_sample) = (''peer1'', json_remove ''peer0'' json_sample)"
    by code_simp
qed

theorem json_add_behaviour_witness:
  "\<exists>s. oget (snd (json_add ''peer'' None json_sample)) ''peer2'' = Some s \<and> j_type s = ''peer'' \<and> j_opts s = []"
proof -
  have "fst (json_add ''peer'' None json_sample) = ''peer2'' \<and> oget json_sample ''peer2'' = None" by code_simp
  then show ?thesis using json_add_behaviour [OF json_sample_wf, of "''peer''" None] by auto
qed

end
