(* ===== verification/Form.thy ===== *)
theory Form
  imports JsonConfig
begin

text \<open>
  The data flow of \<open>form.js\<close>: which options of a form are shown, what is read from the data source into
  them and what parsing the form writes back.

  The document is reduced to what this code asks of it: for every rendered option the element found by its
  \<open>cbid\<close> identifier, with the \<open>hidden\<close> class, the option instance bound to it and the widget inside.
  A widget is a cell holding a value (\<open>getValue\<close>, \<open>setValue\<close>), the outcome of its validation and
  the \<open>data-changed\<close> mark; running its validator is the argument \<open>trigger\<close>.  The data source is given by
  the argument \<open>dset\<close> (and \<open>dget\<close> for loading): the operations of the configuration cache or those of
  a JSON data source.
\<close>

section \<open>Values\<close>

datatype fval = FNull | FStr string | FNum int | FBool bool | FArr "fval list" | FObj "(string \<times> fval) list"

definition fval_of :: "uval option \<Rightarrow> fval" where
  "fval_of v =
     (case v of None \<Rightarrow> FNull | Some (UStr s) \<Rightarrow> FStr s | Some (UList l) \<Rightarrow> FArr (map FStr l)
      | Some (UBool b) \<Rightarrow> FBool b | Some (UNum n) \<Rightarrow> FNum n)"

text \<open>The value a dependency names: a plain value, or a pattern with its source text.\<close>

datatype dval = DVal fval | DRegex rexp string

fun fstr :: "fval \<Rightarrow> string" where
  "fstr FNull = ''null''"
| "fstr (FStr s) = s"
| "fstr (FNum n) = int_string 10 n"
| "fstr (FBool b) = (if b then ''true'' else ''false'')"
| "fstr (FArr xs) = join '','' (map (\<lambda>x. if x = FNull then [] else fstr x) xs)"
| "fstr (FObj m) = ''[object Object]''"

text \<open>Own properties of an object or array.\<close>

definition fprops :: "fval \<Rightarrow> (string \<times> fval) list" where
  "fprops v = (case v of FArr xs \<Rightarrow> zip (map dec_string [0..<length xs]) xs | FObj m \<Rightarrow> m | _ \<Rightarrow> [])"

function isEqual :: "fval \<Rightarrow> fval \<Rightarrow> bool" where
  "isEqual x y =
     (case (x, y) of
        (FNull, FNull) \<Rightarrow> True
      | (FStr a, FStr b) \<Rightarrow> a = b
      | (FNum a, FNum b) \<Rightarrow> a = b
      | (FBool a, FBool b) \<Rightarrow> a = b
      | (FArr xs, FArr ys) \<Rightarrow> length xs = length ys \<and> (\<forall>p \<in> set (zip xs ys). isEqual (fst p) (snd p))
      | (FObj m, FArr _) \<Rightarrow> (\<forall>p \<in> set m. case map_of (fprops y) (fst p) of None \<Rightarrow> False | Some w \<Rightarrow> isEqual (snd p) w) \<and>
          set (map fst (fprops y)) \<subseteq> set (map fst m)
      | (FObj m, FObj _) \<Rightarrow> (\<forall>p \<in> set m. case map_of (fprops y) (fst p) of None \<Rightarrow> False | Some w \<Rightarrow> isEqual (snd p) w) \<and>
          set (map fst (fprops y)) \<subseteq> set (map fst m)
      | _ \<Rightarrow> False)"
  by pat_completeness auto
termination
proof (relation "measure (\<lambda>(x, y). size x)")
  show "wf (measure (\<lambda>(x :: fval, y :: fval). size x))" by simp
qed (auto dest!: set_zip_leftD simp: less_Suc_eq_le intro: size_list_estimation' elim!: size_list_estimation')


declare isEqual.simps [simp del]

definition dep_equal :: "fval \<Rightarrow> dval \<Rightarrow> bool" where
  "dep_equal x y = (case y of DRegex r _ \<Rightarrow> x \<noteq> FNull \<and> test r (fstr x) | DVal v \<Rightarrow> isEqual x v)"

definition dval_str :: "dval \<Rightarrow> string" where
  "dval_str y = (case y of DVal v \<Rightarrow> fstr v | DRegex _ src \<Rightarrow> src)"

text \<open>\<open>x == y\<close> for an element of an array of strings.\<close>

definition str_loose :: "string \<Rightarrow> dval \<Rightarrow> bool" where
  "str_loose s y =
     (case y of
        DRegex _ src \<Rightarrow> s = src
      | DVal FNull \<Rightarrow> False
      | DVal (FNum n) \<Rightarrow> num_eq (to_number s) (Fin (of_int n))
      | DVal (FBool b) \<Rightarrow> num_eq (to_number s) (Fin (if b then 1 else 0))
      | DVal v \<Rightarrow> s = fstr v)"

fun substring :: "string \<Rightarrow> string \<Rightarrow> bool" where
  "substring t [] = (t = [])"
| "substring t (c # s) = (take (length t) (c # s) = t \<or> substring t s)"

text \<open>Values of widgets are strings, arrays of strings, numbers and booleans.\<close>

definition isContained :: "uval option \<Rightarrow> dval \<Rightarrow> bool" where
  "isContained x y =
     (case x of
        Some (UList l) \<Rightarrow> list_ex (\<lambda>s. str_loose s y) l
      | Some (UStr s) \<Rightarrow> substring (dval_str y) s
      | _ \<Rightarrow> False)"

section \<open>Forms\<close>

text \<open>One alternative of a dependency list; \<open>d_default\<close> tells whether it has the key \<open>!default\<close>.\<close>

record dep =
  d_reverse :: bool
  d_contains :: bool
  d_default :: bool
  d_fields :: "(string \<times> dval) list"

record fwidget =
  w_value :: "uval option"
  w_checked :: bool
  w_valid :: bool
  w_changed :: bool

text \<open>\<open>fd_flag\<close>: the \<open>enabled\<close> and \<open>disabled\<close> values when the instance is a \<open>FlagValue\<close>.\<close>

record ffield =
  fd_config :: string
  fd_option :: string
  fd_flag :: "(string \<times> string) option"
  fd_hidden :: bool
  fd_widget :: "fwidget option"

type_synonym fdom = "ffield jsobj"

text \<open>\<open>o_data\<close> is the cache that \<open>cfgvalue\<close> reads, \<open>o_defaults\<close> the object of conditional defaults.\<close>

record foption =
  o_option :: string
  o_uciconfig :: "string option"
  o_ucisection :: "string option"
  o_ucioption :: "string option"
  o_flag :: "(string \<times> string) option"
  o_deps :: "dep list"
  o_defaults :: "(string \<times> dep list) list option"
  o_default :: "string option"
  o_rmempty :: bool
  o_optional :: bool
  o_retain :: bool
  o_forcewrite :: bool
  o_disable :: bool
  o_data :: "uval option jsobj"

datatype fkind = TypedSection string | NamedSection string

record fsection =
  fs_kind :: fkind
  fs_uciconfig :: "string option"
  fs_children :: "foption list"

record fmap =
  fm_config :: string
  fm_sections :: "fsection list"
  fm_dom :: fdom

text \<open>\<open>a || b\<close> on strings\<close>

definition or_str :: "string option \<Rightarrow> string \<Rightarrow> string" where
  "or_str a b = (case a of Some s \<Rightarrow> if s \<noteq> [] then s else b | None \<Rightarrow> b)"

definition config_name :: "string \<Rightarrow> fsection \<Rightarrow> foption \<Rightarrow> string" where
  "config_name mc sec opt = or_str (o_uciconfig opt) (or_str (fs_uciconfig sec) mc)"

definition uci_sid :: "foption \<Rightarrow> string \<Rightarrow> string" where
  "uci_sid opt sid = or_str (o_ucisection opt) sid"

definition uci_opt :: "foption \<Rightarrow> string" where
  "uci_opt opt = or_str (o_ucioption opt) (o_option opt)"

definition cbid_of :: "string \<Rightarrow> string \<Rightarrow> string \<Rightarrow> string" where
  "cbid_of config sid opt = ''cbid.'' @ config @ ''.'' @ sid @ ''.'' @ opt"

definition cbid :: "string \<Rightarrow> fsection \<Rightarrow> foption \<Rightarrow> string \<Rightarrow> string" where
  "cbid mc sec opt sid = cbid_of (config_name mc sec opt) sid (o_option opt)"

definition cfgvalue :: "foption \<Rightarrow> string \<Rightarrow> uval option" where
  "cfgvalue opt sid = (case oget (o_data opt) sid of Some v \<Rightarrow> v | None \<Rightarrow> None)"

definition set_cfgvalue :: "string \<Rightarrow> uval option \<Rightarrow> foption \<Rightarrow> foption" where
  "set_cfgvalue sid v opt = opt\<lparr>o_data := oset sid v (o_data opt)\<rparr>"

definition field_active :: "fdom \<Rightarrow> string \<Rightarrow> bool" where
  "field_active doc ident = (case oget doc ident of None \<Rightarrow> False | Some f \<Rightarrow> \<not> fd_hidden f)"

definition ui_element :: "fdom \<Rightarrow> string \<Rightarrow> fwidget option" where
  "ui_element doc ident = Option.bind (oget doc ident) fd_widget"

definition form_value :: "(string \<times> string) option \<Rightarrow> fdom \<Rightarrow> string \<Rightarrow> uval option" where
  "form_value flag doc ident =
     (case flag of
        None \<Rightarrow> Option.bind (ui_element doc ident) w_value
      | Some (enabled, disabled) \<Rightarrow>
          Some (UStr (if (case ui_element doc ident of Some w \<Rightarrow> w_checked w | None \<Rightarrow> False) then enabled else disabled)))"

definition field_valid :: "fdom \<Rightarrow> string \<Rightarrow> bool" where
  "field_valid doc ident = (case ui_element doc ident of Some w \<Rightarrow> w_valid w | None \<Rightarrow> True)"

definition set_hidden :: "string \<Rightarrow> bool \<Rightarrow> fdom \<Rightarrow> fdom" where
  "set_hidden ident h doc = (case oget doc ident of None \<Rightarrow> doc | Some f \<Rightarrow> oset ident (f\<lparr>fd_hidden := h\<rparr>) doc)"

definition setActive :: "string \<Rightarrow> bool \<Rightarrow> fdom \<Rightarrow> fdom" where
  "setActive ident active doc =
     (case oget doc ident of
        None \<Rightarrow> doc
      | Some f \<Rightarrow> if fd_hidden f = active then set_hidden ident (\<not> active) doc else doc)"

definition map_widget :: "string \<Rightarrow> (fwidget \<Rightarrow> fwidget) \<Rightarrow> fdom \<Rightarrow> fdom" where
  "map_widget ident g doc =
     (case oget doc ident of None \<Rightarrow> doc | Some f \<Rightarrow> oset ident (f\<lparr>fd_widget := map_option g (fd_widget f)\<rparr>) doc)"

section \<open>Dependencies\<close>

text \<open>The instance found and the section identifier taken from the element's identifier.\<close>

definition lookupOption :: "fdom \<Rightarrow> string \<Rightarrow> string \<Rightarrow> string \<Rightarrow> (ffield \<times> string) option" where
  "lookupOption doc name sid config =
     (let ident = (if CHR ''.'' \<in> set name then ''cbid.'' @ name else cbid_of config sid name)
      in map_option (\<lambda>f. (f, split_on CHR ''.'' ident ! 2)) (oget doc ident))"

definition dep_value :: "fdom \<Rightarrow> string \<Rightarrow> string \<Rightarrow> string \<Rightarrow> uval option" where
  "dep_value doc name sid config =
     (case lookupOption doc name sid config of
        None \<Rightarrow> None
      | Some (f, s) \<Rightarrow>
          let ident = cbid_of (fd_config f) s (fd_option f)
          in if field_active doc ident then form_value (fd_flag f) doc ident else None)"

definition dep_fields_hold :: "fdom \<Rightarrow> string \<Rightarrow> string \<Rightarrow> dep \<Rightarrow> bool" where
  "dep_fields_hold doc config sid d =
     (\<not> d_default d \<and> list_all (\<lambda>(name, y).
        let x = dep_value doc name sid config
        in if d_contains d then isContained x y else dep_equal (fval_of x) y) (d_fields d))"

fun deps_loop :: "fdom \<Rightarrow> string \<Rightarrow> string \<Rightarrow> dep list \<Rightarrow> bool \<Rightarrow> bool" where
  "deps_loop doc config sid [] def = def"
| "deps_loop doc config sid (d # ds) def =
     (if dep_fields_hold doc config sid d \<noteq> d_reverse d then True
      else deps_loop doc config sid ds (def \<or> d_default d))"

definition isDependencySatisfied :: "fdom \<Rightarrow> dep list \<Rightarrow> string \<Rightarrow> string \<Rightarrow> bool" where
  "isDependencySatisfied doc deps config sid = (deps = [] \<or> deps_loop doc config sid deps False)"

section \<open>Conditional defaults\<close>

text \<open>The loop over \<open>this.defaults\<close>: the first satisfied value, or the last one without conditions before it.\<close>

fun pick_default :: "fdom \<Rightarrow> string \<Rightarrow> string \<Rightarrow> (string \<times> dep list) list \<Rightarrow> string option \<Rightarrow> string option" where
  "pick_default doc config sid [] dflt = dflt"
| "pick_default doc config sid ((v, ds) # rest) dflt =
     (if ds = [] then pick_default doc config sid rest (Some v)
      else if isDependencySatisfied doc ds config sid then Some v
      else pick_default doc config sid rest dflt)"

definition updateDefaultValue :: "string \<Rightarrow> fsection \<Rightarrow> string \<Rightarrow> foption \<times> fdom \<Rightarrow> foption \<times> fdom" where
  "updateDefaultValue mc sec sid od =
     (case od of (opt, doc) \<Rightarrow>
        (case o_defaults opt of
           None \<Rightarrow> (opt, doc)
         | Some dfs \<Rightarrow>
             let sat = pick_default doc (config_name mc sec opt) sid dfs None;
                 ident = cbid mc sec opt sid;
                 doc1 = (case (ui_element doc ident, sat) of
                           (Some w, Some v) \<Rightarrow>
                             if \<not> w_changed w \<and> toArray (cfgvalue opt sid) = []
                             then map_widget ident (\<lambda>w. w\<lparr>w_value := Some (UStr v)\<rparr>) doc else doc
                         | _ \<Rightarrow> doc)
             in (opt\<lparr>o_default := sat\<rparr>, doc1)))"

definition opt_checkDepends :: "string \<Rightarrow> fsection \<Rightarrow> string \<Rightarrow> foption \<times> fdom \<Rightarrow> bool \<times> foption \<times> fdom" where
  "opt_checkDepends mc sec sid od =
     (case od of (opt, doc) \<Rightarrow>
        let active = isDependencySatisfied doc (o_deps opt) (config_name mc sec opt) sid
        in (active, if active then updateDefaultValue mc sec sid od else od))"

section \<open>Showing and hiding\<close>

text \<open>One option in one section; \<open>n\<close> is 0 when the argument is undefined.\<close>

definition check_option ::
  "(string \<Rightarrow> fwidget \<Rightarrow> fwidget) \<Rightarrow> nat \<Rightarrow> string \<Rightarrow> fsection \<Rightarrow> string \<Rightarrow> foption \<times> fdom \<Rightarrow> bool \<times> foption \<times> fdom" where
  "check_option trigger n mc sec sid od =
     (let ident = cbid mc sec (fst od) sid;
          active = field_active (snd od) ident;
          (sat, opt1, doc1) = opt_checkDepends mc sec sid od;
          doc2 = (if active \<noteq> sat then setActive ident (\<not> active) doc1 else doc1);
          doc3 = (if n = 0 \<and> sat then map_widget ident (trigger ident) doc2 else doc2)
      in (active \<noteq> sat, opt1, doc3))"

fun check_options ::
  "(string \<Rightarrow> fwidget \<Rightarrow> fwidget) \<Rightarrow> nat \<Rightarrow> string \<Rightarrow> fsection \<Rightarrow> string \<Rightarrow> foption list \<Rightarrow> fdom \<Rightarrow> bool \<times> foption list \<times> fdom" where
  "check_options trigger n mc sec sid [] doc = (False, [], doc)"
| "check_options trigger n mc sec sid (opt # opts) doc =
     (let (c1, opt1, doc1) = check_option trigger n mc sec sid (opt, doc);
          (c2, opts2, doc2) = check_options trigger n mc sec sid opts doc1
      in (c1 \<or> c2, opt1 # opts2, doc2))"

fun check_sids ::
  "(string \<Rightarrow> fwidget \<Rightarrow> fwidget) \<Rightarrow> nat \<Rightarrow> string \<Rightarrow> string list \<Rightarrow> fsection \<Rightarrow> fdom \<Rightarrow> bool \<times> fsection \<times> fdom" where
  "check_sids trigger n mc [] sec doc = (False, sec, doc)"
| "check_sids trigger n mc (sid # sids) sec doc =
     (let (c1, opts, doc1) = check_options trigger n mc sec sid (fs_children sec) doc;
          (c2, sec2, doc2) = check_sids trigger n mc sids (sec\<lparr>fs_children := opts\<rparr>) doc1
      in (c1 \<or> c2, sec2, doc2))"

text \<open>\<open>cfgsections()\<close>: \<open>secs\<close> gives the names of the sections of a type in a configuration.\<close>

definition cfgsections :: "(string \<Rightarrow> string \<Rightarrow> string list) \<Rightarrow> string \<Rightarrow> fsection \<Rightarrow> string list" where
  "cfgsections secs mc sec =
     (case fs_kind sec of TypedSection ty \<Rightarrow> secs (or_str (fs_uciconfig sec) mc) ty | NamedSection sid \<Rightarrow> [sid])"

fun check_sections ::
  "(string \<Rightarrow> fwidget \<Rightarrow> fwidget) \<Rightarrow> (string \<Rightarrow> string \<Rightarrow> string list) \<Rightarrow> nat \<Rightarrow> string \<Rightarrow> fsection list \<Rightarrow> fdom
     \<Rightarrow> bool \<times> fsection list \<times> fdom" where
  "check_sections trigger secs n mc [] doc = (False, [], doc)"
| "check_sections trigger secs n mc (sec # ss) doc =
     (let (c1, sec1, doc1) = check_sids trigger n mc (cfgsections secs mc sec) sec doc;
          (c2, ss2, doc2) = check_sections trigger secs n mc ss doc1
      in (c1 \<or> c2, sec1 # ss2, doc2))"

function checkDepends ::
  "(string \<Rightarrow> fwidget \<Rightarrow> fwidget) \<Rightarrow> (string \<Rightarrow> string \<Rightarrow> string list) \<Rightarrow> nat \<Rightarrow> fmap \<Rightarrow> fmap" where
  "checkDepends trigger secs n m =
     (let (changed, ss, doc) = check_sections trigger secs n (fm_config m) (fm_sections m) (fm_dom m);
          m1 = m\<lparr>fm_sections := ss, fm_dom := doc\<rparr>
      in if changed \<and> n < 10 then checkDepends trigger secs ((if n = 0 then 10 else n) + 1) m1 else m1)"
  by pat_completeness auto
termination
  by (relation "measure (\<lambda>(_, _, n, _). if n = 0 then 20 else 10 - n)") auto

declare checkDepends.simps [simp del]


section \<open>Loading\<close>

definition opt_load ::
  "(string \<Rightarrow> string \<Rightarrow> string \<Rightarrow> 's \<Rightarrow> uval option) \<Rightarrow> string \<Rightarrow> fsection \<Rightarrow> string \<Rightarrow> 's \<Rightarrow> foption \<Rightarrow> uval option" where
  "opt_load dget mc sec sid st opt = dget (config_name mc sec opt) (uci_sid opt sid) (uci_opt opt) st"

text \<open>\<open>loadChildren\<close>: the values of the children that are not disabled.\<close>

definition loadChildren ::
  "(string \<Rightarrow> string \<Rightarrow> string \<Rightarrow> 's \<Rightarrow> uval option) \<Rightarrow> string \<Rightarrow> fsection \<Rightarrow> string \<Rightarrow> 's \<Rightarrow> uval option list" where
  "loadChildren dget mc sec sid st = map (opt_load dget mc sec sid st) (filter (\<lambda>opt. \<not> o_disable opt) (fs_children sec))"

text \<open>\<open>for (i < set_values.length) this.children[i].cfgvalue(section_id, set_values[i])\<close>\<close>

definition store_values :: "string \<Rightarrow> uval option list \<Rightarrow> foption list \<Rightarrow> foption list" where
  "store_values sid vals opts = map2 (\<lambda>v opt. set_cfgvalue sid v opt) vals (take (length vals) opts) @ drop (length vals) opts"

definition sec_load ::
  "(string \<Rightarrow> string \<Rightarrow> string \<Rightarrow> 's \<Rightarrow> uval option) \<Rightarrow> string \<Rightarrow> 's \<Rightarrow> string list \<Rightarrow> fsection \<Rightarrow> fsection" where
  "sec_load dget mc st sids sec =
     fold (\<lambda>sid s. s\<lparr>fs_children := store_values sid (loadChildren dget mc sec sid st) (fs_children s)\<rparr>) sids sec"

definition map_load ::
  "(string \<Rightarrow> string \<Rightarrow> string \<Rightarrow> 's \<Rightarrow> uval option) \<Rightarrow> ('s \<Rightarrow> string \<Rightarrow> string \<Rightarrow> string list) \<Rightarrow> 's \<Rightarrow> fmap \<Rightarrow> fmap" where
  "map_load dget secs st m =
     m\<lparr>fm_sections := map (\<lambda>sec. sec_load dget (fm_config m) st (cfgsections (secs st) (fm_config m) sec) sec) (fm_sections m)\<rparr>"

section \<open>Parsing\<close>

definition opt_write ::
  "(string \<Rightarrow> string \<Rightarrow> string \<Rightarrow> uval option \<Rightarrow> 's \<Rightarrow> 's) \<Rightarrow> string \<Rightarrow> fsection \<Rightarrow> foption \<Rightarrow> string \<Rightarrow> uval option \<Rightarrow> 's \<Rightarrow> 's" where
  "opt_write dset mc sec opt sid v st = dset (config_name mc sec opt) (uci_sid opt sid) (uci_opt opt) v st"

text \<open>Another shown option of the section writes to the same place as child \<open>j\<close>.\<close>

definition aliased :: "string \<Rightarrow> fsection \<Rightarrow> nat \<Rightarrow> string \<Rightarrow> fdom \<Rightarrow> bool" where
  "aliased mc sec j sid doc =
     (let opt = fs_children sec ! j
      in list_ex (\<lambda>i. let sib = fs_children sec ! i
           in i \<noteq> j \<and> o_ucioption sib \<noteq> None \<and>
              config_name mc sec sib = config_name mc sec opt \<and> uci_sid sib sid = uci_sid opt sid \<and> uci_opt sib = uci_opt opt \<and>
              field_active doc (cbid mc sec sib sid)) [0..<length (fs_children sec)])"

definition opt_remove ::
  "(string \<Rightarrow> string \<Rightarrow> string \<Rightarrow> uval option \<Rightarrow> 's \<Rightarrow> 's) \<Rightarrow> string \<Rightarrow> fsection \<Rightarrow> nat \<Rightarrow> string \<Rightarrow> fdom \<Rightarrow> 's \<Rightarrow> 's" where
  "opt_remove dset mc sec j sid doc st =
     (if aliased mc sec j sid doc then st else opt_write dset mc sec (fs_children sec ! j) sid None st)"

text \<open>The \<open>parse\<close> method of a plain option.\<close>

definition value_parse ::
  "(string \<Rightarrow> string \<Rightarrow> string \<Rightarrow> uval option \<Rightarrow> 's \<Rightarrow> 's) \<Rightarrow> string \<Rightarrow> fsection \<Rightarrow> nat \<Rightarrow> string \<Rightarrow> fdom \<Rightarrow> 's \<Rightarrow> unit jsret \<times> 's" where
  "value_parse dset mc sec j sid doc st =
     (let opt = fs_children sec ! j; ident = cbid mc sec opt sid; active = field_active doc ident
      in if active \<and> \<not> field_valid doc ident then (Throw ''TypeError'', st)
         else if active then
           (let fv = form_value None doc ident
            in if fv = None \<or> loose_eq fv (Some (UStr [])) then
                 (if o_rmempty opt \<or> o_optional opt then (Ret (), opt_remove dset mc sec j sid doc st)
                  else (Throw ''TypeError'', st))
               else if o_forcewrite opt \<or> \<not> isEqual (fval_of (cfgvalue opt sid)) (fval_of fv)
                    then (Ret (), opt_write dset mc sec opt sid fv st)
               else (Ret (), st))
         else if \<not> o_retain opt then (Ret (), opt_remove dset mc sec j sid doc st)
         else (Ret (), st))"

text \<open>The \<open>parse\<close> method of \<open>FlagValue\<close>.\<close>

definition flag_parse ::
  "(string \<Rightarrow> string \<Rightarrow> string \<Rightarrow> uval option \<Rightarrow> 's \<Rightarrow> 's) \<Rightarrow> string \<Rightarrow> fsection \<Rightarrow> nat \<Rightarrow> string \<Rightarrow> fdom \<Rightarrow> 's \<Rightarrow> unit jsret \<times> 's" where
  "flag_parse dset mc sec j sid doc st =
     (let opt = fs_children sec ! j; ident = cbid mc sec opt sid
      in if field_active doc ident then
           (let fv = form_value (o_flag opt) doc ident
            in if \<not> field_valid doc ident then (Throw ''TypeError'', st)
               else if loose_eq fv (map_option UStr (o_default opt)) \<and> (o_optional opt \<or> o_rmempty opt)
                    then (Ret (), opt_remove dset mc sec j sid doc st)
               else (Ret (), opt_write dset mc sec opt sid fv st))
         else if \<not> o_retain opt then (Ret (), opt_remove dset mc sec j sid doc st)
         else (Ret (), st))"

definition opt_parse ::
  "(string \<Rightarrow> string \<Rightarrow> string \<Rightarrow> uval option \<Rightarrow> 's \<Rightarrow> 's) \<Rightarrow> string \<Rightarrow> fsection \<Rightarrow> nat \<Rightarrow> string \<Rightarrow> fdom \<Rightarrow> 's \<Rightarrow> unit jsret \<times> 's" where
  "opt_parse dset mc sec j sid doc st =
     (if o_flag (fs_children sec ! j) = None then value_parse dset mc sec j sid doc st
      else flag_parse dset mc sec j sid doc st)"

text \<open>\<open>Promise.all\<close>: every parse runs, the first rejection is the outcome.\<close>

definition all_of :: "unit jsret \<Rightarrow> unit jsret \<Rightarrow> unit jsret" where
  "all_of a b = (case a of Ret _ \<Rightarrow> b | _ \<Rightarrow> a)"

fun parse_seq ::
  "(string \<Rightarrow> string \<Rightarrow> string \<Rightarrow> uval option \<Rightarrow> 's \<Rightarrow> 's) \<Rightarrow> string \<Rightarrow> fsection \<Rightarrow> fdom \<Rightarrow> (string \<times> nat) list \<Rightarrow> 's \<Rightarrow> unit jsret \<times> 's" where
  "parse_seq dset mc sec doc [] st = (Ret (), st)"
| "parse_seq dset mc sec doc ((sid, j) # ps) st =
     (let (r1, st1) = opt_parse dset mc sec j sid doc st; (r2, st2) = parse_seq dset mc sec doc ps st1
      in (all_of r1 r2, st2))"

definition sec_parse ::
  "(string \<Rightarrow> string \<Rightarrow> string \<Rightarrow> uval option \<Rightarrow> 's \<Rightarrow> 's) \<Rightarrow> ('s \<Rightarrow> string \<Rightarrow> string \<Rightarrow> string list) \<Rightarrow> string \<Rightarrow> fdom \<Rightarrow> fsection \<Rightarrow> 's
     \<Rightarrow> unit jsret \<times> 's" where
  "sec_parse dset secs mc doc sec st =
     parse_seq dset mc sec doc (List.product (cfgsections (secs st) mc sec) [0..<length (fs_children sec)]) st"

fun map_parse ::
  "(string \<Rightarrow> string \<Rightarrow> string \<Rightarrow> uval option \<Rightarrow> 's \<Rightarrow> 's) \<Rightarrow> ('s \<Rightarrow> string \<Rightarrow> string \<Rightarrow> string list) \<Rightarrow> string \<Rightarrow> fdom \<Rightarrow> fsection list \<Rightarrow> 's
     \<Rightarrow> unit jsret \<times> 's" where
  "map_parse dset secs mc doc [] st = (Ret (), st)"
| "map_parse dset secs mc doc (sec # ss) st =
     (let (r1, st1) = sec_parse dset secs mc doc sec st; (r2, st2) = map_parse dset secs mc doc ss st1
      in (all_of r1 r2, st2))"

text \<open>\<open>save\<close> without a callback: \<open>dsave\<close> is the data source's \<open>save\<close>.  The rendering that follows is left out.\<close>

definition map_save ::
  "(string \<Rightarrow> fwidget \<Rightarrow> fwidget) \<Rightarrow> (string \<Rightarrow> string \<Rightarrow> string \<Rightarrow> 's \<Rightarrow> uval option) \<Rightarrow>
   (string \<Rightarrow> string \<Rightarrow> string \<Rightarrow> uval option \<Rightarrow> 's \<Rightarrow> 's) \<Rightarrow> ('s \<Rightarrow> unit jsret \<times> 's) \<Rightarrow>
   ('s \<Rightarrow> string \<Rightarrow> string \<Rightarrow> string list) \<Rightarrow> fmap \<Rightarrow> 's \<Rightarrow> unit jsret \<times> fmap \<times> 's" where
  "map_save trigger dget dset dsave secs m st =
     (let m1 = checkDepends trigger (secs st) 0 m;
          (r1, st1) = map_parse dset secs (fm_config m1) (fm_dom m1) (fm_sections m1) st
      in (case r1 of
            Ret _ \<Rightarrow>
              (let (r2, st2) = dsave st1
               in (case r2 of Ret _ \<Rightarrow> (Ret (), map_load dget secs st2 m1, st2) | _ \<Rightarrow> (r2, m1, st2)))
          | _ \<Rightarrow> (r1, m1, st1)))"

end
