(* ===== verification/FormLaws.thy ===== *)
theory FormLaws
  imports Form
begin

text \<open>
  Laws of the forms: parsing a section of a form makes the data source hold what the form shows, for both data
  sources; a pass over the dependencies that changes nothing leaves exactly the options with satisfied
  dependencies shown; how many passes are made; and what loading does to disabled options.
\<close>

section \<open>Comparing values\<close>

lemma isEqual_strings: "isEqual (FArr (map FStr xs)) (FArr (map FStr ys)) \<longleftrightarrow> xs = ys"
proof -
  have s: "isEqual (FStr a) (FStr b) \<longleftrightarrow> a = b" for a b by (simp add: isEqual.simps)
  have "isEqual (FArr (map FStr xs)) (FArr (map FStr ys)) \<longleftrightarrow>
      length xs = length ys \<and> (\<forall>p \<in> set (zip (map FStr xs) (map FStr ys)). isEqual (fst p) (snd p))"
    by (subst isEqual.simps) simp
  also have "\<dots> \<longleftrightarrow> length xs = length ys \<and> (\<forall>(a, b) \<in> set (zip xs ys). a = b)"
    by (auto simp: zip_map_map s)
  also have "\<dots> \<longleftrightarrow> xs = ys" by (auto simp: list_eq_iff_zip_eq)
  finally show ?thesis .
qed

text \<open>On the values that widgets and configurations hold, \<open>isEqual\<close> is equality.\<close>

lemma isEqual_uval: "isEqual (fval_of a) (fval_of b) \<longleftrightarrow> a = b"
proof (cases "\<exists>xs ys. a = Some (UList xs) \<and> b = Some (UList ys)")
  case True
  then show ?thesis by (auto simp: fval_of_def isEqual_strings)
next
  case False
  then show ?thesis by (subst isEqual.simps) (auto simp: fval_of_def split: option.splits uval.splits)
qed

section \<open>What parsing stores\<close>

definition is_empty_value :: "uval option \<Rightarrow> bool" where
  "is_empty_value v \<longleftrightarrow> v = None \<or> loose_eq v (Some (UStr []))"

text \<open>What the data source should hold for child \<open>j\<close> in section \<open>sid\<close>, given what it held before.\<close>

definition form_result :: "string \<Rightarrow> fsection \<Rightarrow> fdom \<Rightarrow> uval option \<Rightarrow> string \<times> nat \<Rightarrow> uval option" where
  "form_result mc sec doc old p =
     (let opt = fs_children sec ! snd p; ident = cbid mc sec opt (fst p); fv = form_value (o_flag opt) doc ident
      in if field_active doc ident then
           (if o_flag opt = None then (if is_empty_value fv then None else fv)
            else if loose_eq fv (map_option UStr (o_default opt)) \<and> (o_optional opt \<or> o_rmempty opt) then None else fv)
         else if o_retain opt then old else None)"

definition target :: "fsection \<Rightarrow> string \<times> nat \<Rightarrow> string \<times> string" where
  "target sec p = (uci_sid (fs_children sec ! snd p) (fst p), uci_opt (fs_children sec ! snd p))"

text \<open>The conditions on the options of a section: they belong to the configuration, name existing sections, hold
  storable values, are not aliased by a shown sibling and agree with the data source on what was loaded.\<close>

definition ready ::
  "('s \<Rightarrow> string \<Rightarrow> string \<Rightarrow> uval option) \<Rightarrow> ('s \<Rightarrow> string \<Rightarrow> bool) \<Rightarrow> (uval option \<Rightarrow> bool) \<Rightarrow> (string \<Rightarrow> bool) \<Rightarrow>
   string \<Rightarrow> 's \<Rightarrow> string \<Rightarrow> fsection \<Rightarrow> fdom \<Rightarrow> string \<times> nat \<Rightarrow> bool" where
  "ready get ok storable oname c s mc sec doc p \<longleftrightarrow>
     config_name mc sec (fs_children sec ! snd p) = c \<and> ok s (fst (target sec p)) \<and> oname (snd (target sec p)) \<and>
     storable (form_result mc sec doc (get s (fst (target sec p)) (snd (target sec p))) p) \<and>
     \<not> aliased mc sec (snd p) (fst p) doc \<and>
     cfgvalue (fs_children sec ! snd p) (fst p) = get s (fst (target sec p)) (snd (target sec p))"

text \<open>A form section on a data source, all of whose options belong to one configuration.\<close>

locale form_data = section_store get put ok valid storable sname oname
  for get :: "'s \<Rightarrow> string \<Rightarrow> string \<Rightarrow> uval option" and put ok valid storable sname oname +
  fixes dset :: "string \<Rightarrow> string \<Rightarrow> string \<Rightarrow> uval option \<Rightarrow> 's \<Rightarrow> 's"
    and c :: string
  assumes dset_put: "dset c = put"
    and storable_None: "storable None"
begin

lemma opt_parse_result:
  assumes "valid s" and r: "opt_parse dset mc sec j sid doc s = (Ret (), s')"
    and cf: "config_name mc sec (fs_children sec ! j) = c"
    and t: "target sec (sid, j) = (ti, tk)" "ok s ti" "oname tk"
    and st: "storable (form_result mc sec doc (get s ti tk) (sid, j))"
    and na: "\<not> aliased mc sec j sid doc"
    and sync: "cfgvalue (fs_children sec ! j) sid = get s ti tk"
    and ik: "sname i" "oname k"
  shows "get s' i k = (if (i, k) = (ti, tk) then form_result mc sec doc (get s ti tk) (sid, j) else get s i k)"
proof -
  have w: "opt_write dset mc sec (fs_children sec ! j) sid v s = put ti tk v s" for v
    using t(1) by (simp add: opt_write_def cf dset_put target_def)
  have g: "get (put ti tk v s) i k = (if (i, k) = (ti, tk) then v else get s i k)" if "storable v" for v
    using sget_put [OF assms(1) t(2,3) that ik] by simp
  have rm: "opt_remove dset mc sec j sid doc s = put ti tk None s" using na w by (simp add: opt_remove_def)
  let ?opt = "fs_children sec ! j"
  let ?id = "cbid mc sec ?opt sid"
  show ?thesis
  proof (cases "o_flag ?opt")
    case None
    have "s' = (if field_active doc ?id then
        (if is_empty_value (form_value None doc ?id) then put ti tk None s
         else if o_forcewrite ?opt \<or> get s ti tk \<noteq> form_value None doc ?id then put ti tk (form_value None doc ?id) s else s)
       else if \<not> o_retain ?opt then put ti tk None s else s)"
      using r by (auto simp: opt_parse_def None value_parse_def Let_def w rm is_empty_value_def [symmetric] sync isEqual_uval split: if_splits)
    then show ?thesis
      using g [OF storable_None] g [of "form_value None doc ?id"] st
      by (auto simp: form_result_def Let_def None split: if_splits)
  next
    case (Some fl)
    have "s' = (if field_active doc ?id then
        (if loose_eq (form_value (Some fl) doc ?id) (map_option UStr (o_default ?opt)) \<and> (o_optional ?opt \<or> o_rmempty ?opt)
         then put ti tk None s else put ti tk (form_value (Some fl) doc ?id) s)
       else if \<not> o_retain ?opt then put ti tk None s else s)"
      using r by (auto simp: opt_parse_def Some flag_parse_def Let_def w rm split: if_splits)
    then show ?thesis
      using g [OF storable_None] g [of "form_value (Some fl) doc ?id"] st
      by (auto simp: form_result_def Let_def Some split: if_splits)
  qed
qed

lemma opt_parse_valid:
  assumes "valid s" and "config_name mc sec (fs_children sec ! j) = c"
  shows "valid (snd (opt_parse dset mc sec j sid doc s)) \<and> ok (snd (opt_parse dset mc sec j sid doc s)) i = ok s i"
proof -
  have "opt_write dset mc sec (fs_children sec ! j) sid v s = put (uci_sid (fs_children sec ! j) sid) (uci_opt (fs_children sec ! j)) v s" for v
    by (simp add: opt_write_def assms(2) dset_put)
  then show ?thesis
    using assms(1) by (simp add: opt_parse_def value_parse_def flag_parse_def opt_remove_def Let_def svalid_put sok_put)
qed

lemma parse_seq_result:
  assumes "valid s" and "parse_seq dset mc sec doc ps s = (Ret (), s')" and "\<forall>p \<in> set ps. ready get ok storable oname c s mc sec doc p"
    and "distinct (map (target sec) ps)" and ik: "sname i" "oname k"
  shows "get s' i k =
    (case find (\<lambda>p. target sec p = (i, k)) ps of Some p \<Rightarrow> form_result mc sec doc (get s i k) p | None \<Rightarrow> get s i k)"
  using assms(1-4)
proof (induction ps arbitrary: s)
  case (Cons p ps)
  obtain sid j where p: "p = (sid, j)" by (cases p)
  obtain ti tk where t: "target sec (sid, j) = (ti, tk)" by (cases "target sec (sid, j)")
  have rdy: "ready get ok storable oname c s mc sec doc (sid, j)" using Cons.prems(3) by (simp add: p)
  obtain r1 s1 where r: "opt_parse dset mc sec j sid doc s = (r1, s1)" by (cases "opt_parse dset mc sec j sid doc s")
  obtain r2 s2 where r2: "parse_seq dset mc sec doc ps s1 = (r2, s2)" by (cases "parse_seq dset mc sec doc ps s1")
  from Cons.prems(2) have rr: "r1 = Ret ()" "r2 = Ret ()" "s2 = s'"
    by (auto simp: p r r2 all_of_def split: jsret.splits)
  have v: "valid s1" "ok s1 x = ok s x" for x
    using opt_parse_valid [OF Cons.prems(1), of mc sec j sid doc] rdy by (auto simp: ready_def r)
  have g1: "get s1 x y = (if (x, y) = (ti, tk) then form_result mc sec doc (get s ti tk) (sid, j) else get s x y)"
    if "sname x" "oname y" for x y
    by (rule opt_parse_result [OF Cons.prems(1) r [unfolded rr(1)] _ t]) (use rdy t that in \<open>auto simp: ready_def\<close>)
  have "ready get ok storable oname c s1 mc sec doc q" if q: "q \<in> set ps" for q
  proof -
    have "target sec q \<noteq> (ti, tk)" using Cons.prems(4) q t by (force simp: p)
    moreover have "ready get ok storable oname c s mc sec doc q" using Cons.prems(3) q by simp
    ultimately show ?thesis using v(2) g1 [of "fst (target sec q)" "snd (target sec q)"] sok_sname
      by (auto simp: ready_def)
  qed
  then have "get s' i k = (case find (\<lambda>p. target sec p = (i, k)) ps of
      Some p \<Rightarrow> form_result mc sec doc (get s1 i k) p | None \<Rightarrow> get s1 i k)"
    using Cons.IH [OF v(1)] r2 rr Cons.prems(4) by (simp add: p)
  moreover have "find (\<lambda>p. target sec p = (i, k)) ps = None" if "(ti, tk) = (i, k)"
    using that Cons.prems(4) t by (force simp: p find_None_iff)
  ultimately show ?case using g1 [OF ik] t
    by (cases "(ti, tk) = (i, k)") (auto simp: p split: option.split)
qed simp

end

interpretation fu: form_data "\<lambda>s i k. uci_get c (Some i) k s" "\<lambda>i k v. uci_set c (Some i) (Some k) v"
  "\<lambda>s i. plain_sid i \<and> writable s c i" uci_wf "\<lambda>v. v \<noteq> Some (UStr [])" plain_sid plain_opt
  "\<lambda>c i k v. uci_set c (Some i) (Some k) v" c for c
  by unfold_locales auto

interpretation fj: form_data "\<lambda>d i k. json_get (Some i) k d" "\<lambda>i k v. json_set (Some i) (Some k) v"
  "\<lambda>d i. oget d i \<noteq> None" json_wf json_storable "\<lambda>_. True" plain_opt
  "\<lambda>c i k v. json_set (Some i) (Some k) v" c for c
  by unfold_locales (simp_all add: json_storable_def)

section \<open>Saving a form\<close>

text \<open>C4. Parsing a section of a form on the configuration cache makes the cache hold what the form shows: for every
  option the value of its widget if it is shown (nothing if it is empty, or the default of a flag), nothing if it is
  hidden and not retained, and what it held before if it is retained; nothing else in the configuration changes.\<close>

theorem form_parse_stores_uci:
  assumes "uci_wf s"
    and "sec_parse (\<lambda>c i k v. uci_set c (Some i) (Some k) v) secs mc doc sec s = (Ret (), s')"
    and "ps = List.product (cfgsections (secs s) mc sec) [0..<length (fs_children sec)]"
    and "\<forall>p \<in> set ps. ready (\<lambda>s i k. uci_get c (Some i) k s) (\<lambda>s i. plain_sid i \<and> writable s c i)
           (\<lambda>v. v \<noteq> Some (UStr [])) plain_opt c s mc sec doc p"
    and "distinct (map (target sec) ps)" and "plain_sid i" "plain_opt k"
  shows "uci_get c (Some i) k s' =
    (case find (\<lambda>p. target sec p = (i, k)) ps of
       Some p \<Rightarrow> form_result mc sec doc (uci_get c (Some i) k s) p
     | None \<Rightarrow> uci_get c (Some i) k s)"
  using assms(2) fu.parse_seq_result [OF assms(1) _ assms(4,5,6,7)]
  unfolding sec_parse_def assms(3) [symmetric] by blast

text \<open>C21. The same for a form on a JSON data source.\<close>

theorem form_parse_stores_json:
  assumes "json_wf d"
    and "sec_parse (\<lambda>c i k v. json_set (Some i) (Some k) v) secs mc doc sec d = (Ret (), d')"
    and "ps = List.product (cfgsections (secs d) mc sec) [0..<length (fs_children sec)]"
    and "\<forall>p \<in> set ps. ready (\<lambda>d i k. json_get (Some i) k d) (\<lambda>d i. oget d i \<noteq> None) json_storable plain_opt c d mc sec doc p"
    and "distinct (map (target sec) ps)" and "plain_opt k"
  shows "json_get (Some i) k d' =
    (case find (\<lambda>p. target sec p = (i, k)) ps of
       Some p \<Rightarrow> form_result mc sec doc (json_get (Some i) k d) p
     | None \<Rightarrow> json_get (Some i) k d)"
  using assms(2) fj.parse_seq_result [OF assms(1) _ assms(4,5) TrueI assms(6)]
  unfolding sec_parse_def assms(3) [symmetric] by blast

text \<open>An option with the defaults of the constructor.\<close>

definition new_option :: "string \<Rightarrow> foption" where
  "new_option name = \<lparr>o_option = name, o_uciconfig = None, o_ucisection = None, o_ucioption = None, o_flag = None,
     o_deps = [], o_defaults = None, o_default = None, o_rmempty = True, o_optional = False, o_retain = False,
     o_forcewrite = False, o_disable = False, o_data = []\<rparr>"

definition new_field :: "string \<Rightarrow> string \<Rightarrow> string option \<Rightarrow> bool \<Rightarrow> ffield" where
  "new_field config name v hidden = \<lparr>fd_config = config, fd_option = name, fd_flag = None, fd_hidden = hidden,
     fd_widget = Some \<lparr>w_value = map_option UStr v, w_checked = False, w_valid = True, w_changed = False\<rparr>\<rparr>"

definition sample_form :: "string \<Rightarrow> uval option \<Rightarrow> fsection" where
  "sample_form sid loaded_proto = \<lparr>fs_kind = NamedSection sid, fs_uciconfig = None,
     fs_children = [new_option ''mtu'', (new_option ''proto'')\<lparr>o_data := [(sid, loaded_proto)]\<rparr>]\<rparr>"

definition sample_doc :: "string \<Rightarrow> fdom" where
  "sample_doc sid = [(cbid_of ''net'' sid ''mtu'', new_field ''net'' ''mtu'' (Some ''1492'') False),
     (cbid_of ''net'' sid ''proto'', new_field ''net'' ''proto'' (Some ''dhcp'') True)]"

lemmas sample_form_defs = sample_form_def sample_doc_def new_option_def new_field_def target_def uci_sid_def uci_opt_def or_str_def
  config_name_def cbid_def cbid_of_def field_active_def form_value_def ui_element_def form_result_def is_empty_value_def
  loose_eq_def aliased_def cfgvalue_def oget_def

theorem form_parse_stores_uci_witness:
  "\<exists>s'. sec_parse (\<lambda>c i k v. uci_set c (Some i) (Some k) v) (\<lambda>_ _ _. []) ''net'' (sample_doc ''wan'')
      (sample_form ''wan'' (Some (UStr ''dhcp''))) sample = (Ret (), s') \<and>
    uci_get ''net'' (Some ''wan'') ''mtu'' s' = Some (UStr ''1492'') \<and> uci_get ''net'' (Some ''wan'') ''proto'' s' = None"
proof -
  let ?sec = "sample_form ''wan'' (Some (UStr ''dhcp''))" and ?doc = "sample_doc ''wan''"
  let ?parse = "sec_parse (\<lambda>c i k v. uci_set c (Some i) (Some k) v) (\<lambda>_ _ _. []) ''net'' ?doc ?sec sample"
  have "case ?parse of (Ret _, _) \<Rightarrow> True | _ \<Rightarrow> False" by code_simp
  then obtain s' where s': "?parse = (Ret (), s')" by (auto split: prod.splits jsret.splits)
  have ps: "[(''wan'', 0), (''wan'', 1)] = List.product (cfgsections ((\<lambda>_ _ _. []) sample) ''net'' ?sec) [0..<length (fs_children ?sec)]"
    by (simp add: cfgsections_def sample_form_def)
  have g: "uci_get ''net'' (Some ''wan'') ''mtu'' sample = None" "uci_get ''net'' (Some ''wan'') ''proto'' sample = Some (UStr ''dhcp'')"
    by code_simp+
  have r: "\<forall>p \<in> set [(''wan'', 0), (''wan'', 1)]. ready (\<lambda>s i k. uci_get ''net'' (Some i) k s)
      (\<lambda>s i. plain_sid i \<and> writable s ''net'' i) (\<lambda>v. v \<noteq> Some (UStr [])) plain_opt ''net'' sample ''net'' ?sec ?doc p"
    using g by (simp add: ready_def sample_form_defs plain_literals sample_writable)
  have d: "distinct (map (target ?sec) [(''wan'', 0), (''wan'', 1)])" by (simp add: sample_form_defs)
  show ?thesis
    using form_parse_stores_uci [OF sample_wf s' ps r d plain_literals(2,5)]
      form_parse_stores_uci [OF sample_wf s' ps r d plain_literals(2,4)] s'
    by (simp add: sample_form_defs)
qed

definition json_net :: json where
  "json_net = json_init (\<lambda>_ _. 0) [(''wan'', JObject \<lparr>ji_name = None, ji_index = None, ji_opts = [(''proto'', UStr ''dhcp'')]\<rparr>)]"

theorem form_parse_stores_json_witness:
  "\<exists>d'. sec_parse (\<lambda>c i k v. json_set (Some i) (Some k) v) (\<lambda>_ _ _. []) ''net'' (sample_doc ''wan'')
      (sample_form ''wan'' (Some (UStr ''dhcp''))) json_net = (Ret (), d') \<and>
    json_get (Some ''wan'') ''mtu'' d' = Some (UStr ''1492'') \<and> json_get (Some ''wan'') ''proto'' d' = None"
proof -
  let ?sec = "sample_form ''wan'' (Some (UStr ''dhcp''))" and ?doc = "sample_doc ''wan''"
  let ?parse = "sec_parse (\<lambda>c i k v. json_set (Some i) (Some k) v) (\<lambda>_ _ _. []) ''net'' ?doc ?sec json_net"
  have "case ?parse of (Ret _, _) \<Rightarrow> True | _ \<Rightarrow> False" by code_simp
  then obtain d' where d': "?parse = (Ret (), d')" by (auto split: prod.splits jsret.splits)
  have ps: "[(''wan'', 0), (''wan'', 1)] = List.product (cfgsections ((\<lambda>_ _ _. []) json_net) ''net'' ?sec) [0..<length (fs_children ?sec)]"
    by (simp add: cfgsections_def sample_form_def)
  have w: "json_wf json_net" unfolding json_net_def by (rule json_init_wf)
  have g: "json_get (Some ''wan'') ''mtu'' json_net = None" "json_get (Some ''wan'') ''proto'' json_net = Some (UStr ''dhcp'')"
    "oget json_net ''wan'' \<noteq> None"
    by code_simp+
  have r: "\<forall>p \<in> set [(''wan'', 0), (''wan'', 1)]. ready (\<lambda>d i k. json_get (Some i) k d) (\<lambda>d i. oget d i \<noteq> None)
      json_storable plain_opt ''net'' json_net ''net'' ?sec ?doc p"
    using g by (simp add: ready_def sample_form_defs plain_literals json_storable_def)
  have d: "distinct (map (target ?sec) [(''wan'', 0), (''wan'', 1)])" by (simp add: sample_form_defs)
  show ?thesis
    using form_parse_stores_json [OF w d' ps r d plain_literals(5), of "''wan''"]
      form_parse_stores_json [OF w d' ps r d plain_literals(4), of "''wan''"] d'
    by (simp add: sample_form_defs)
qed

section \<open>Dependencies\<close>

text \<open>What the evaluation of dependencies sees of an element.\<close>

definition field_view :: "ffield \<Rightarrow> string \<times> string \<times> (string \<times> string) option \<times> bool \<times> (uval option \<times> bool) option" where
  "field_view f = (fd_config f, fd_option f, fd_flag f, fd_hidden f, map_option (\<lambda>w. (w_value w, w_checked w)) (fd_widget f))"

definition same_view :: "fdom \<Rightarrow> fdom \<Rightarrow> bool" where
  "same_view d e \<longleftrightarrow> (\<forall>ident. map_option field_view (oget d ident) = map_option field_view (oget e ident))"

lemma same_viewD:
  assumes "same_view d e"
  shows "field_active d ident = field_active e ident" "form_value fl d ident = form_value fl e ident"
    "dep_value d name sid config = dep_value e name sid config"
proof -
  have v: "map_option field_view (oget d x) = map_option field_view (oget e x)" for x using assms by (simp add: same_view_def)
  show a: "field_active d ident = field_active e ident" for ident
    using v [of ident] by (cases "oget d ident"; cases "oget e ident") (auto simp: field_active_def field_view_def)
  show f: "form_value fl d ident = form_value fl e ident" for fl ident
  proof -
    have w: "map_option (\<lambda>w. (w_value w, w_checked w)) (ui_element d ident) = map_option (\<lambda>w. (w_value w, w_checked w)) (ui_element e ident)"
      using v [of ident] by (cases "oget d ident"; cases "oget e ident") (auto simp: ui_element_def field_view_def)
    then show ?thesis
      by (cases "ui_element d ident"; cases "ui_element e ident") (auto simp: form_value_def split: option.split)
  qed
  define ident where "ident = (if CHR ''.'' \<in> set name then ''cbid.'' @ name else cbid_of config sid name)"
  show "dep_value d name sid config = dep_value e name sid config"
    using v [of ident] unfolding dep_value_def lookupOption_def ident_def [symmetric] Let_def
    by (cases "oget d ident"; cases "oget e ident") (auto simp: a f field_view_def)
qed

lemma same_view_deps:
  assumes "same_view d e"
  shows "isDependencySatisfied d deps config sid = isDependencySatisfied e deps config sid"
proof -
  have "dep_fields_hold d config sid x = dep_fields_hold e config sid x" for x
    by (simp add: dep_fields_hold_def same_viewD(3) [OF assms])
  then have "deps_loop d config sid deps def = deps_loop e config sid deps def" for def
    by (induction deps arbitrary: def) auto
  then show ?thesis by (simp add: isDependencySatisfied_def)
qed

lemma same_view_refl: "same_view d d"
  by (simp add: same_view_def)

lemma same_view_trans: "same_view d e \<Longrightarrow> same_view e f \<Longrightarrow> same_view d f"
  by (simp add: same_view_def)

text \<open>Running a validator may change the verdict on a widget, not its value.\<close>

definition keeps_value :: "(string \<Rightarrow> fwidget \<Rightarrow> fwidget) \<Rightarrow> bool" where
  "keeps_value trigger \<longleftrightarrow> (\<forall>ident w. w_value (trigger ident w) = w_value w \<and> w_checked (trigger ident w) = w_checked w)"

lemma same_view_trigger: "keeps_value trigger \<Longrightarrow> same_view d (map_widget ident (trigger ident) d)"
  by (auto simp: same_view_def map_widget_def keeps_value_def field_view_def option.map_comp comp_def split: option.split)

text \<open>The options of a form are shown exactly when their dependencies hold.\<close>

definition consistent :: "fdom \<Rightarrow> string \<Rightarrow> fsection \<Rightarrow> string \<Rightarrow> foption \<Rightarrow> bool" where
  "consistent doc mc sec sid opt \<longleftrightarrow>
     field_active doc (cbid mc sec opt sid) = isDependencySatisfied doc (o_deps opt) (config_name mc sec opt) sid"

lemma same_view_consistent: "same_view d e \<Longrightarrow> consistent d mc sec sid opt = consistent e mc sec sid opt"
  by (simp add: consistent_def same_viewD(1) [of d e] same_view_deps [of d e])

lemma check_option_stable:
  assumes "keeps_value trigger" and "o_defaults opt = None" and "check_option trigger n mc sec sid (opt, d) = (False, opt', d')"
  shows "opt' = opt \<and> same_view d d' \<and> consistent d mc sec sid opt"
proof -
  have "opt_checkDepends mc sec sid (opt, d) = (isDependencySatisfied d (o_deps opt) (config_name mc sec opt) sid, opt, d)"
    by (simp add: opt_checkDepends_def updateDefaultValue_def assms(2) Let_def)
  with assms(3) show ?thesis
    using same_view_trigger [OF assms(1)] same_view_refl
    by (auto simp: check_option_def Let_def consistent_def split: if_splits)
qed

lemma check_options_stable:
  assumes "keeps_value trigger" and "\<forall>opt \<in> set opts. o_defaults opt = None"
    and "check_options trigger n mc sec sid opts d = (False, opts', d')"
  shows "opts' = opts \<and> same_view d d' \<and> (\<forall>opt \<in> set opts. consistent d mc sec sid opt)"
  using assms(2,3)
proof (induction opts arbitrary: d opts' d')
  case (Cons opt opts)
  obtain c1 opt1 d1 where 1: "check_option trigger n mc sec sid (opt, d) = (c1, opt1, d1)" by (cases "check_option trigger n mc sec sid (opt, d)") auto
  obtain c2 opts2 d2 where 2: "check_options trigger n mc sec sid opts d1 = (c2, opts2, d2)" by (cases "check_options trigger n mc sec sid opts d1") auto
  from Cons.prems(2) have e: "\<not> c1" "\<not> c2" "opts' = opt1 # opts2" "d' = d2" by (auto simp: 1 2)
  have "opt1 = opt" "same_view d d1" "consistent d mc sec sid opt"
    using check_option_stable [OF assms(1), of opt n mc sec sid d opt1 d1] 1 e(1) Cons.prems(1) by auto
  moreover have "opts2 = opts" "same_view d1 d2" "\<forall>opt \<in> set opts. consistent d1 mc sec sid opt"
    using Cons.IH [of d1 opts2 d2] 2 e(2) Cons.prems(1) by auto
  ultimately show ?case using e same_view_trans same_view_consistent [of d d1] by auto
qed (auto simp: same_view_refl)

lemma check_sids_stable:
  assumes "keeps_value trigger" and "\<forall>opt \<in> set (fs_children sec). o_defaults opt = None"
    and "check_sids trigger n mc sids sec d = (False, sec', d')"
  shows "sec' = sec \<and> same_view d d' \<and> (\<forall>sid \<in> set sids. \<forall>opt \<in> set (fs_children sec). consistent d mc sec sid opt)"
  using assms(3)
proof (induction sids arbitrary: d sec' d')
  case (Cons sid sids)
  obtain c1 os d1 where 1: "check_options trigger n mc sec sid (fs_children sec) d = (c1, os, d1)"
    by (cases "check_options trigger n mc sec sid (fs_children sec) d") auto
  obtain c2 sec2 d2 where 2: "check_sids trigger n mc sids (sec\<lparr>fs_children := os\<rparr>) d1 = (c2, sec2, d2)"
    by (cases "check_sids trigger n mc sids (sec\<lparr>fs_children := os\<rparr>) d1") auto
  from Cons.prems have e: "\<not> c1" "\<not> c2" "sec' = sec2" "d' = d2" by (auto simp: 1 2)
  have a: "os = fs_children sec" "same_view d d1" "\<forall>opt \<in> set (fs_children sec). consistent d mc sec sid opt"
    using check_options_stable [OF assms(1,2), of n mc sec sid d os d1] 1 e(1) by auto
  then have "sec2 = sec \<and> same_view d1 d2 \<and> (\<forall>sid \<in> set sids. \<forall>opt \<in> set (fs_children sec). consistent d1 mc sec sid opt)"
    using Cons.IH [of d1 sec2 d2] 2 e(2) by simp
  then show ?case using e a same_view_trans same_view_consistent [of d d1] by auto
qed (auto simp: same_view_refl)

lemma check_sections_stable:
  assumes "keeps_value trigger" and "\<forall>sec \<in> set ss. \<forall>opt \<in> set (fs_children sec). o_defaults opt = None"
    and "check_sections trigger secs n mc ss d = (False, ss', d')"
  shows "ss' = ss \<and> same_view d d' \<and>
    (\<forall>sec \<in> set ss. \<forall>sid \<in> set (cfgsections secs mc sec). \<forall>opt \<in> set (fs_children sec). consistent d mc sec sid opt)"
  using assms(2,3)
proof (induction ss arbitrary: d ss' d')
  case (Cons sec ss)
  obtain c1 sec1 d1 where 1: "check_sids trigger n mc (cfgsections secs mc sec) sec d = (c1, sec1, d1)"
    by (cases "check_sids trigger n mc (cfgsections secs mc sec) sec d") auto
  obtain c2 ss2 d2 where 2: "check_sections trigger secs n mc ss d1 = (c2, ss2, d2)" by (cases "check_sections trigger secs n mc ss d1") auto
  from Cons.prems(2) have e: "\<not> c1" "\<not> c2" "ss' = sec1 # ss2" "d' = d2" by (auto simp: 1 2)
  have a: "sec1 = sec" "same_view d d1"
    "\<forall>sid \<in> set (cfgsections secs mc sec). \<forall>opt \<in> set (fs_children sec). consistent d mc sec sid opt"
    using check_sids_stable [OF assms(1), of sec n mc "cfgsections secs mc sec" d sec1 d1] 1 e(1) Cons.prems(1) by auto
  have "ss2 = ss \<and> same_view d1 d2 \<and> (\<forall>sec \<in> set ss. \<forall>sid \<in> set (cfgsections secs mc sec). \<forall>opt \<in> set (fs_children sec). consistent d1 mc sec sid opt)"
    using Cons.IH [of d1 ss2 d2] 2 e(2) Cons.prems(1) by auto
  then show ?case using e a same_view_trans same_view_consistent [of d d1] by auto
qed (auto simp: same_view_refl)

definition one_pass :: "(string \<Rightarrow> fwidget \<Rightarrow> fwidget) \<Rightarrow> (string \<Rightarrow> string \<Rightarrow> string list) \<Rightarrow> nat \<Rightarrow> fmap \<Rightarrow> bool \<times> fmap" where
  "one_pass trigger secs n m =
     (let (changed, ss, doc) = check_sections trigger secs n (fm_config m) (fm_sections m) (fm_dom m)
      in (changed, m\<lparr>fm_sections := ss, fm_dom := doc\<rparr>))"

definition settled :: "(string \<Rightarrow> string \<Rightarrow> string list) \<Rightarrow> fmap \<Rightarrow> bool" where
  "settled secs m \<longleftrightarrow>
     (\<forall>sec \<in> set (fm_sections m). \<forall>sid \<in> set (cfgsections secs (fm_config m) sec). \<forall>opt \<in> set (fs_children sec).
        consistent (fm_dom m) (fm_config m) sec sid opt)"

lemma one_pass_settled:
  assumes "keeps_value trigger" and "\<forall>sec \<in> set (fm_sections m). \<forall>opt \<in> set (fs_children sec). o_defaults opt = None"
    and "one_pass trigger secs n m = (False, m')"
  shows "settled secs m'"
proof -
  from assms(3) obtain ss d where c: "check_sections trigger secs n (fm_config m) (fm_sections m) (fm_dom m) = (False, ss, d)"
    and m': "m' = m\<lparr>fm_sections := ss, fm_dom := d\<rparr>"
    by (auto simp: one_pass_def split: prod.splits)
  show ?thesis
    using check_sections_stable [OF assms(1,2) c] same_view_consistent by (auto simp: settled_def m')
qed


text \<open>Option \<open>d\<close> needs \<open>c = 1\<close>, \<open>c\<close> needs \<open>b = 1\<close> and \<open>b\<close> needs \<open>a = 1\<close>, declared in this order.\<close>

definition needs :: "string \<Rightarrow> string \<Rightarrow> foption" where
  "needs name other = (new_option name)\<lparr>o_deps :=
     [\<lparr>d_reverse = False, d_contains = False, d_default = False, d_fields = [(other, DVal (FStr ''1''))]\<rparr>]\<rparr>"

definition chain_form :: "string \<Rightarrow> fmap" where
  "chain_form a = \<lparr>fm_config = ''x'', fm_sections = [\<lparr>fs_kind = NamedSection ''s'', fs_uciconfig = None,
       fs_children = [needs ''d'' ''c'', needs ''c'' ''b'', needs ''b'' ''a'', new_option ''a'']\<rparr>],
     fm_dom = map (\<lambda>(n, v). (cbid_of ''x'' ''s'' n, new_field ''x'' n (Some v) False)) [(''d'', ''1''), (''c'', ''1''), (''b'', ''1''), (''a'', a)]\<rparr>"

lemma chain_no_defaults: "\<forall>sec \<in> set (fm_sections (chain_form a)). \<forall>opt \<in> set (fs_children sec). o_defaults opt = None"
  by (simp add: chain_form_def needs_def new_option_def)



section \<open>Loading\<close>

lemma store_values_all:
  "length vals = length opts \<Longrightarrow> store_values sid vals opts = map2 (set_cfgvalue sid) vals opts"
  by (simp add: store_values_def)

lemma cfgvalue_set: "cfgvalue (set_cfgvalue sid v opt) x = (if x = sid then v else cfgvalue opt x)"
  by (simp add: cfgvalue_def set_cfgvalue_def)

lemma sec_load_children:
  assumes "\<forall>opt \<in> set (fs_children sec). \<not> o_disable opt" and "j < length (fs_children sec)"
    and "length (fs_children s) = length (fs_children sec)"
  shows "length (fs_children (fold (\<lambda>sid s. s\<lparr>fs_children := store_values sid (loadChildren dget mc sec sid st) (fs_children s)\<rparr>) sids s)) =
      length (fs_children sec) \<and>
    cfgvalue (fs_children (fold (\<lambda>sid s. s\<lparr>fs_children := store_values sid (loadChildren dget mc sec sid st) (fs_children s)\<rparr>) sids s) ! j) x =
      (if x \<in> set sids then opt_load dget mc sec x st (fs_children sec ! j) else cfgvalue (fs_children s ! j) x)"
  using assms(3)
proof (induction sids arbitrary: s)
  case (Cons sid sids)
  have f: "filter (\<lambda>opt. \<not> o_disable opt) (fs_children sec) = fs_children sec" using assms(1) by (simp add: filter_id_conv)
  let ?s = "s\<lparr>fs_children := store_values sid (loadChildren dget mc sec sid st) (fs_children s)\<rparr>"
  have l: "fs_children ?s = map2 (set_cfgvalue sid) (map (opt_load dget mc sec sid st) (fs_children sec)) (fs_children s)"
    using Cons.prems by (simp add: store_values_all loadChildren_def f)
  then have "length (fs_children ?s) = length (fs_children sec)" using Cons.prems by simp
  moreover have "cfgvalue (fs_children ?s ! j) x =
      (if x = sid then opt_load dget mc sec sid st (fs_children sec ! j) else cfgvalue (fs_children s ! j) x)"
    unfolding l using assms(2) Cons.prems by (simp add: cfgvalue_set)
  ultimately show ?case using Cons.IH [of ?s] by (cases "x = sid") simp_all
qed simp

text \<open>C22. Loading a section fills every option with what the data source holds for it, provided no option is disabled.
  With a disabled option the values are stored one place too early: the disabled option receives the value of its
  successor and the last option none.\<close>

theorem form_load_reads:
  assumes "\<forall>opt \<in> set (fs_children sec). \<not> o_disable opt" and "j < length (fs_children sec)" and "sid \<in> set sids"
  shows "cfgvalue (fs_children (sec_load dget mc st sids sec) ! j) sid = opt_load dget mc sec sid st (fs_children sec ! j) \<and>
    (let shifted = fs_children (sec_load (\<lambda>c i k d. json_get (Some i) k d) ''net'' json_net [''wan'']
          \<lparr>fs_kind = NamedSection ''wan'', fs_uciconfig = None, fs_children = [(new_option ''mtu'')\<lparr>o_disable := True\<rparr>, new_option ''proto'']\<rparr>)
     in cfgvalue (shifted ! 0) ''wan'' = Some (UStr ''dhcp'') \<and> cfgvalue (shifted ! 1) ''wan'' = None)"
proof
  show "cfgvalue (fs_children (sec_load dget mc st sids sec) ! j) sid = opt_load dget mc sec sid st (fs_children sec ! j)"
    using sec_load_children [OF assms(1,2) refl, of dget mc st sids sid] assms(3) by (simp add: sec_load_def)
qed code_simp

theorem form_load_reads_witness:
  "cfgvalue (fs_children (sec_load (\<lambda>c i k d. json_get (Some i) k d) ''net'' json_net [''wan''] (sample_form ''wan'' None)) ! 1) ''wan'' = Some (UStr ''dhcp'')"
proof -
  have "\<forall>opt \<in> set (fs_children (sample_form ''wan'' None)). \<not> o_disable opt" "1 < length (fs_children (sample_form ''wan'' None))"
    by (simp_all add: sample_form_def new_option_def)
  moreover have "opt_load (\<lambda>c i k d. json_get (Some i) k d) ''net'' (sample_form ''wan'' None) ''wan'' json_net (fs_children (sample_form ''wan'' None) ! 1) = Some (UStr ''dhcp'')"
    by code_simp
  ultimately show ?thesis
    using form_load_reads [of "sample_form ''wan'' None" 1 "''wan''" "[''wan'']" "\<lambda>c i k d. json_get (Some i) k d" "''net''" json_net] by simp
qed

end
