(* ===== verification/Network.thy ===== *)
theory Network
  imports JsonConfig ValidationLaws
begin

text \<open>
  The network model of \<open>network.js\<close>: the helpers that relate wireless interfaces, their configuration
  sections and their network identifiers, list-valued options, netmasks, the operations on networks that change the
  configuration, status lookups and host hints.

  Operations work on the configuration cache after \<open>initNetworkState\<close> has loaded the configurations; what
  the device reports (\<open>_state\<close>) is an argument: the radios with their interfaces, the interface status list
  and the host hints.
\<close>

section \<open>Interface names\<close>

definition name_num :: "string \<Rightarrow> rexp" where
  "name_num s = RSeq (RStr s) (RPlus (RChr is_digit))"

definition iface_patterns_ignore :: "rexp list" where
  "iface_patterns_ignore = [name_num ''wmaster'', name_num ''wifi'', name_num ''hwsim'', name_num ''imq'', name_num ''ifb'',
     name_num ''mon.wlan'', name_num ''sit'', name_num ''gre'', name_num ''gretap'', name_num ''ip6gre'', name_num ''ip6tnl'',
     name_num ''tunl'', RSeq (RStr ''lo'') REnd]"

definition iface_patterns_wireless :: "rexp list" where
  "iface_patterns_wireless = [name_num ''wlan'', name_num ''wl'', name_num ''ath'',
     RSeq (RPlus (RChr is_word)) (name_num ''.network'')]"

definition isWifiIfname :: "string \<Rightarrow> bool" where
  "isWifiIfname ifname = list_ex (\<lambda>r. test r ifname) iface_patterns_wireless"

definition isVirtualIfname :: "rexp list \<Rightarrow> string \<Rightarrow> bool" where
  "isVirtualIfname iface_patterns_virtual ifname = list_ex (\<lambda>r. test r ifname) iface_patterns_virtual"

definition isIgnoredIfname :: "string \<Rightarrow> bool" where
  "isIgnoredIfname ifname = list_ex (\<lambda>r. test r ifname) iface_patterns_ignore"

text \<open>\<open>ifnameOf\<close> of a string (without line breaks): \<open>obj.replace(/:.+$/, '')\<close>\<close>

definition ifname_of_string :: "string \<Rightarrow> string" where
  "ifname_of_string s =
     (let rest = dropWhile (\<lambda>c. c \<noteq> CHR '':'') s
      in if 2 \<le> length rest then takeWhile (\<lambda>c. c \<noteq> CHR '':'') s else s)"

section \<open>Wireless interfaces\<close>

text \<open>What the device reports of a wireless interface: the properties that are strings.\<close>

record netstate =
  ns_section :: "string option"
  ns_ifname :: "string option"

type_synonym radios = "(string \<times> netstate list) list"

definition radio_list :: "radios \<Rightarrow> (string \<times> netstate) list" where
  "radio_list rs = concat (map (\<lambda>(r, ns). map (\<lambda>n. (r, n)) ns) rs)"

fun find_state :: "uci_section \<Rightarrow> (string \<times> netstate) list \<Rightarrow> uci \<Rightarrow> (string \<times> netstate) option \<times> uci" where
  "find_state s [] st = (None, st)"
| "find_state s ((r, n) # rest) st =
     (case ns_section n of
        None \<Rightarrow> find_state s rest st
      | Some sec \<Rightarrow>
          (case get_section ''wireless'' (Some sec) st of
             (None, st1) \<Rightarrow> find_state s rest st1
           | (Some s2, st1) \<Rightarrow>
               if s_type s = s_type s2 \<and> s_name s = s_name s2
               then (if \<not> s_anonymous s2 \<and> take 1 sec = ''@'' then (None, st1) else (Some (r, n), st1))
               else find_state s rest st1))"

definition getWifiStateBySid :: "radios \<Rightarrow> string option \<Rightarrow> uci \<Rightarrow> (string \<times> netstate) option \<times> uci" where
  "getWifiStateBySid rs sid st =
     (case get_section ''wireless'' sid st of
        (Some s, st1) \<Rightarrow> if s_type s = ''wifi-iface'' then find_state s (radio_list rs) st1 else (None, st1)
      | (None, st1) \<Rightarrow> (None, st1))"

definition getWifiStateByIfname :: "radios \<Rightarrow> string \<Rightarrow> (string \<times> netstate) option" where
  "getWifiStateByIfname rs ifname = find (\<lambda>(r, n). ns_ifname n = Some ifname) (radio_list rs)"

text \<open>\<open>/^(\w+)\.network(\d+)$/\<close>\<close>

definition netid_re :: rexp where
  "netid_re = RCat [RGrp 1 (RPlus (RChr is_word)), RStr ''.network'', RGrp 2 (RPlus (RChr is_digit)), REnd]"

text \<open>The loops over the sections: those of the same device are counted from one.\<close>

fun nth_of_device :: "uval option \<Rightarrow> nat \<Rightarrow> nat \<Rightarrow> uci_section list \<Rightarrow> string option" where
  "nth_of_device dev target n [] = None"
| "nth_of_device dev target n (s # ss) =
     (if \<not> loose_eq (oget (s_opts s) ''device'') dev then nth_of_device dev target n ss
      else if Suc n = target then Some (s_name s) else nth_of_device dev target (Suc n) ss)"

fun position_of :: "uval option \<Rightarrow> string \<Rightarrow> nat \<Rightarrow> uci_section list \<Rightarrow> nat option" where
  "position_of dev name n [] = None"
| "position_of dev name n (s # ss) =
     (if \<not> loose_eq (oget (s_opts s) ''device'') dev then position_of dev name n ss
      else if s_name s \<noteq> name then position_of dev name (Suc n) ss
      else Some (Suc n))"

definition getWifiSidByNetid :: "string \<Rightarrow> uci \<Rightarrow> string option" where
  "getWifiSidByNetid netid st =
     (case exec netid_re netid of
        None \<Rightarrow> None
      | Some m \<Rightarrow>
          nth_of_device (Some (UStr (the (cap m 1)))) (nat_of_radix 10 (the (cap m 2))) 0
            (uci_sections ''wireless'' (Some ''wifi-iface'') st))"

definition getWifiSidByIfname :: "radios \<Rightarrow> string \<Rightarrow> uci \<Rightarrow> string option" where
  "getWifiSidByIfname rs ifname st =
     (case getWifiSidByNetid ifname st of
        Some sid \<Rightarrow> Some sid
      | None \<Rightarrow> Option.bind (getWifiStateByIfname rs ifname) (\<lambda>(_, n). ns_section n))"

definition netid_string :: "string \<Rightarrow> nat \<Rightarrow> string" where
  "netid_string device n = device @ ''.network'' @ dec_string n"

definition getWifiNetidBySid :: "string option \<Rightarrow> uci \<Rightarrow> (string \<times> string) option \<times> uci" where
  "getWifiNetidBySid sid st =
     (case get_section ''wireless'' sid st of
        (None, st1) \<Rightarrow> (None, st1)
      | (Some s, st1) \<Rightarrow>
          (if s_type s \<noteq> ''wifi-iface'' then (None, st1)
           else (case oget (s_opts s) ''device'' of
                   Some (UStr d) \<Rightarrow>
                     (map_option (\<lambda>n. (netid_string d n, d))
                        (position_of (Some (UStr d)) (s_name s) 0 (uci_sections ''wireless'' (Some ''wifi-iface'') st1)), st1)
                 | _ \<Rightarrow> (None, st1))))"

definition getWifiNetidByNetname :: "string \<Rightarrow> uci \<Rightarrow> (string \<times> string) option \<times> uci" where
  "getWifiNetidByNetname name st =
     (case find (\<lambda>s. case oget (s_opts s) ''network'' of Some (UStr l) \<Rightarrow> name \<in> set (split_space l []) | _ \<Rightarrow> False)
             (uci_sections ''wireless'' (Some ''wifi-iface'') st) of
        Some s \<Rightarrow> getWifiNetidBySid (Some (s_name s)) st
      | None \<Rightarrow> (None, st))"

text \<open>What \<open>lookupWifiNetwork\<close> passes to the wireless network it creates: the section, the radio, the network
  identifier and the reported state.\<close>

record wifi_lookup =
  wl_sid :: string
  wl_radio :: "string option"
  wl_netid :: "string option"
  wl_state :: "netstate option"

definition found_state :: "string \<Rightarrow> string option \<Rightarrow> string \<times> netstate \<Rightarrow> uci \<Rightarrow> wifi_lookup \<times> uci" where
  "found_state netname sid res st =
     (let (id, st1) = getWifiNetidBySid sid st
      in (\<lparr>wl_sid = (case sid of Some s \<Rightarrow> if s = [] then netname else s | None \<Rightarrow> netname), wl_radio = Some (fst res),
            wl_netid = map_option fst id, wl_state = Some (snd res)\<rparr>, st1))"

definition lookupWifiNetwork :: "radios \<Rightarrow> string \<Rightarrow> uci \<Rightarrow> wifi_lookup \<times> uci" where
  "lookupWifiNetwork rs netname st =
     (case getWifiSidByNetid netname st of
        Some sid \<Rightarrow>
          (let (res, st1) = getWifiStateBySid rs (Some sid) st
           in (\<lparr>wl_sid = (if sid = [] then netname else sid), wl_radio = map_option fst res, wl_netid = Some netname,
                wl_state = map_option snd res\<rparr>, st1))
      | None \<Rightarrow>
          (case getWifiStateByIfname rs netname of
             Some res \<Rightarrow> found_state netname (ns_section (snd res)) res st
           | None \<Rightarrow>
               (case getWifiStateBySid rs (Some netname) st of
                  (Some res, st1) \<Rightarrow> found_state netname (Some netname) res st1
                | (None, st1) \<Rightarrow>
                    (let (id, st2) = getWifiNetidBySid (Some netname) st1
                     in (\<lparr>wl_sid = netname, wl_radio = map_option snd id, wl_netid = map_option fst id, wl_state = None\<rparr>, st2)))))"

section \<open>Lists in options\<close>

definition is_array :: "uval option \<Rightarrow> bool" where
  "is_array v = (case v of Some (UList _) \<Rightarrow> True | _ \<Rightarrow> False)"

text \<open>
  An array that \<open>uci.get\<close> returns from the base values is the cached array itself, so changing it in place
  changes the base section too.
\<close>

definition share_list :: "string \<Rightarrow> string \<Rightarrow> string \<Rightarrow> string list \<Rightarrow> uci \<Rightarrow> uci" where
  "share_list conf sid opt l st =
     (case oget2 (st_values st) conf sid of
        Some s \<Rightarrow>
          if oget2 (creates st) conf sid = None \<and> Option.bind (oget2 (changes st) conf sid) (\<lambda>c. oget c opt) = None \<and>
             uci_get conf (Some sid) opt st = oget (s_opts s) opt \<and> is_array (oget (s_opts s) opt)
          then st\<lparr>st_values := oset2 conf sid (s\<lparr>s_opts := oset opt (UList l) (s_opts s)\<rparr>) (st_values st)\<rparr> else st
      | None \<Rightarrow> st)"

definition list_value :: "bool \<Rightarrow> string list \<Rightarrow> uval" where
  "list_value arr l = (if arr then UList l else UStr (join '' '' l))"

definition share_in :: "string \<Rightarrow> string option \<Rightarrow> string \<Rightarrow> bool \<Rightarrow> string list \<Rightarrow> uci \<Rightarrow> uci" where
  "share_in config section_id opt arr l st =
     (case resolveSID config section_id st of Some sid \<Rightarrow> if arr then share_list config sid opt l st else st | None \<Rightarrow> st)"

definition appendValue :: "string \<Rightarrow> string option \<Rightarrow> string \<Rightarrow> string \<Rightarrow> uci \<Rightarrow> bool \<times> uci" where
  "appendValue config section_id opt x st =
     (let v = uci_get config section_id opt st; l = toArray v; arr = is_array v;
          new = (if x \<in> set l then l else l @ [x])
      in (x \<notin> set l, uci_set config section_id (Some opt) (Some (list_value arr new)) (share_in config section_id opt arr new st)))"

definition removeValue :: "string \<Rightarrow> string option \<Rightarrow> string \<Rightarrow> string \<Rightarrow> uci \<Rightarrow> bool \<times> uci" where
  "removeValue config section_id opt x st =
     (let v = uci_get config section_id opt st; l = toArray v; arr = is_array v; new = filter (\<lambda>y. y \<noteq> x) l;
          st1 = share_in config section_id opt arr new st
      in (x \<in> set l,
          if new \<noteq> [] then uci_set config section_id (Some opt) (Some (list_value arr new)) st1
          else uci_unset config section_id (Some opt) st1))"


section \<open>Netmasks\<close>

definition mask_word :: "nat \<Rightarrow> nat" where
  "mask_word b = (0xffff * 2 ^ (16 - b)) mod 0x10000"

text \<open>The loop over the 16-bit words of the mask.\<close>

fun mask_words :: "nat \<Rightarrow> nat \<Rightarrow> nat list" where
  "mask_words 0 bits = []"
| "mask_words (Suc k) bits = (let b = min 16 bits in mask_word b # mask_words k (bits - b))"

text \<open>\<open>s.replace(/:0(?::0)+$/, '::')\<close> on groups joined by colons: a run of at least two zero groups at the end,
  other than the first group.\<close>

definition collapse_zeros :: "string list \<Rightarrow> string" where
  "collapse_zeros gs =
     (let z = length (takeWhile (\<lambda>g. g = ''0'') (rev (tl gs)))
      in if 2 \<le> z then join '':'' (take (length gs - z) gs) @ ''::'' else join '':'' gs)"

definition prefixToMask :: "nat \<Rightarrow> bool \<Rightarrow> string option" where
  "prefixToMask bits v6 =
     (let w = (if v6 then 128 else 32)
      in if w < bits then None
         else (let m = mask_words (w div 16) bits
               in if v6 then Some (collapse_zeros (map hex_string m))
                  else Some (join ''.'' (map dec_string [m ! 0 div 256, m ! 0 mod 256, m ! 1 div 256, m ! 1 mod 256]))))"

text \<open>Leading one bits of a word of \<open>k\<close> bits and what is left after shifting them out.\<close>

fun shift_ones :: "nat \<Rightarrow> nat \<Rightarrow> nat \<Rightarrow> nat \<Rightarrow> nat \<times> nat" where
  "shift_ones 0 k x bits = (x, bits)"
| "shift_ones (Suc f) k x bits =
     (if 2 ^ (k - 1) \<le> x then shift_ones f k ((2 * x) mod 2 ^ k) (Suc bits) else (x, bits))"

fun count_bits :: "nat \<Rightarrow> nat list \<Rightarrow> bool \<Rightarrow> nat \<Rightarrow> nat option" where
  "count_bits k [] z bits = Some bits"
| "count_bits k (x # xs) z bits =
     (let z1 = (z \<or> x = 0); (y, bits1) = (if z1 then (x, bits) else shift_ones (Suc k) k x bits)
      in if y \<noteq> 0 then None else count_bits k xs z1 bits1)"

definition maskToPrefix :: "string \<Rightarrow> bool \<Rightarrow> nat option" where
  "maskToPrefix netmask v6 =
     (case (if v6 then parseIPv6 netmask else parseIPv4 netmask) of
        None \<Rightarrow> None
      | Some m \<Rightarrow> count_bits (if v6 then 16 else 8) m False 0)"

section \<open>Encryption\<close>

record wifi_enc =
  e_enabled :: bool
  e_ciphers :: "string list option"
  e_wep :: "string list option"
  e_wpa :: "nat list option"
  e_auth :: "string list option"

definition upper_list :: "string list option \<Rightarrow> string" where
  "upper_list l = join '', '' (case l of Some cs \<Rightarrow> map (map to_upper) cs | None \<Rightarrow> [''NONE''])"

definition wpa_version :: "nat \<Rightarrow> string" where
  "wpa_version n = (if n = 1 then ''WPA'' else ''WPA'' @ dec_string n)"

text \<open>\<open>versions[0]\<close> of an empty list is undefined and formatted as \<open>undefined\<close>.\<close>

definition formatWifiEncryption :: "wifi_enc option \<Rightarrow> string option" where
  "formatWifiEncryption enc =
     (case enc of
        None \<Rightarrow> None
      | Some e \<Rightarrow>
          if \<not> e_enabled e then Some ''None''
          else (let ciphers = upper_list (e_ciphers e)
                in (case e_wep e of
                      Some wep \<Rightarrow>
                        if ''open'' \<in> set wep \<and> ''shared'' \<in> set wep then Some (''WEP Open/Shared ('' @ ciphers @ '')'')
                        else if ''open'' \<in> set wep then Some (''WEP Open System ('' @ ciphers @ '')'')
                        else if ''shared'' \<in> set wep then Some (''WEP Shared Auth ('' @ ciphers @ '')'')
                        else Some ''WEP''
                    | None \<Rightarrow>
                        (case e_wpa e of
                           Some wpa \<Rightarrow>
                             (let versions = map wpa_version wpa; suites = upper_list (e_auth e)
                              in if 1 < length versions
                                 then Some (''mixed '' @ join ''/'' versions @ '' '' @ suites @ '' ('' @ ciphers @ '')'')
                                 else Some ((case versions of v # _ \<Rightarrow> v | [] \<Rightarrow> ''undefined'') @ '' '' @ suites @ '' ('' @ ciphers @ '')''))
                         | None \<Rightarrow> Some ''Unknown''))))"

section \<open>Networks\<close>

definition iface_name_ok :: "string \<Rightarrow> bool" where
  "iface_name_ok name = test (RSeq (RPlus (RChr is_word)) REnd) name"

text \<open>\<open>s.interface == name\<close> and its kind.\<close>

definition opt_is :: "string \<Rightarrow> string \<Rightarrow> uci_section \<Rightarrow> bool" where
  "opt_is opt name s = loose_eq (oget (s_opts s) opt) (Some (UStr name))"

text \<open>A section of the network configuration that refers to the interface.\<close>

definition net_reference :: "string \<Rightarrow> uci_section \<Rightarrow> bool" where
  "net_reference name s =
     (if s_type s \<in> {''alias'', ''route'', ''route6''} then opt_is ''interface'' name s
      else if s_type s \<in> {''rule'', ''rule6''} then opt_is ''in'' name s \<or> opt_is ''out'' name s
      else False)"

definition remove_where :: "string \<Rightarrow> string option \<Rightarrow> (uci_section \<Rightarrow> bool) \<Rightarrow> uci \<Rightarrow> uci" where
  "remove_where conf ty p st = fold (uci_remove conf) (map s_name (filter p (uci_sections conf ty st))) st"

definition drop_from_iface :: "string \<Rightarrow> uci_section \<Rightarrow> uci \<Rightarrow> uci" where
  "drop_from_iface name s st =
     (let networks = filter (\<lambda>n. n \<noteq> name) (toArray (oget (s_opts s) ''network''))
      in if networks \<noteq> [] then uci_set ''wireless'' (Some (s_name s)) (Some ''network'') (Some (UStr (join '' '' networks))) st
         else uci_unset ''wireless'' (Some (s_name s)) (Some ''network'') st)"

definition delete_references :: "string \<Rightarrow> uci \<Rightarrow> uci" where
  "delete_references name st =
     (let st1 = remove_where ''luci'' (Some ''ifstate'') (opt_is ''interface'' name) st;
          st2 = remove_where ''network'' None (net_reference name) st1;
          st3 = fold (drop_from_iface name) (uci_sections ''wireless'' (Some ''wifi-iface'') st2) st2
      in remove_where ''dhcp'' (Some ''dhcp'') (opt_is ''interface'' name) st3)"

text \<open>The firewall is passed the name last; an exception there turns the result into \<open>false\<close>.  The protocol's
  hook \<open>deleteConfiguration\<close>, which does nothing unless a protocol overrides it, is not modelled.\<close>

definition deleteNetwork ::
  "(string option list \<Rightarrow> string option list) \<Rightarrow> (string \<Rightarrow> uci_section jsobj option) \<Rightarrow> string \<Rightarrow> uci \<Rightarrow> bool \<times> uci" where
  "deleteNetwork js_sort fetch name st =
     (case get_section ''network'' (Some name) st of
        (sec, st1) \<Rightarrow>
          if \<not> has_type sec ''interface'' then (False, st1)
          else (let st2 = delete_references name (uci_remove ''network'' name st1)
                in (case fw_deleteNetwork js_sort fetch name st2 of
                      Ret (_, st3) \<Rightarrow> (True, st3)
                    | _ \<Rightarrow> (False, st2))))"

definition set_where :: "string \<Rightarrow> string option \<Rightarrow> string \<Rightarrow> string \<Rightarrow> string \<Rightarrow> uci \<Rightarrow> uci" where
  "set_where conf ty opt old new st =
     fold (\<lambda>s. if opt_is opt old s then uci_set conf (Some (s_name s)) (Some opt) (Some (UStr new)) else id)
       (uci_sections conf ty st) st"

definition rename_in_iface :: "string \<Rightarrow> string \<Rightarrow> uci_section \<Rightarrow> uci \<Rightarrow> uci" where
  "rename_in_iface old new s st =
     (let networks = map (\<lambda>n. if n = old then new else n) (toArray (oget (s_opts s) ''network''))
      in if networks \<noteq> [] then uci_set ''wireless'' (Some (s_name s)) (Some ''network'') (Some (UStr (join '' '' networks))) st
         else st)"

definition copy_options :: "string \<Rightarrow> string \<Rightarrow> uval jsobj \<Rightarrow> uci \<Rightarrow> uci" where
  "copy_options conf sid m st =
     fold (\<lambda>(k, v). if take 1 k = ''.'' then id else uci_set conf (Some sid) (Some k) (Some v)) m st"

definition rename_references_net :: "string \<Rightarrow> string \<Rightarrow> uci \<Rightarrow> uci" where
  "rename_references_net old new st =
     (let st1 = set_where ''luci'' (Some ''ifstate'') ''interface'' old new st;
          st2 = set_where ''network'' (Some ''alias'') ''interface'' old new st1;
          st3 = set_where ''network'' (Some ''route'') ''interface'' old new st2;
          st4 = set_where ''network'' (Some ''route6'') ''interface'' old new st3
      in fold (rename_in_iface old new) (uci_sections ''wireless'' (Some ''wifi-iface'') st4) st4)"

definition renameNetwork :: "string \<Rightarrow> string option \<Rightarrow> uci \<Rightarrow> (bool \<times> uci) jsret" where
  "renameNetwork oldName newName st =
     (case newName of
        None \<Rightarrow> Ret (False, st)
      | Some new \<Rightarrow>
          if \<not> iface_name_ok new then Ret (False, st)
          else (case get_section ''network'' (Some new) st of
                  (Some _, st1) \<Rightarrow> Ret (False, st1)
                | (None, st1) \<Rightarrow>
                    (case get_section ''network'' (Some oldName) st1 of
                       (None, st2) \<Rightarrow> Ret (False, st2)
                     | (Some s, st2) \<Rightarrow>
                         if s_type s \<noteq> ''interface'' then Ret (False, st2)
                         else jbind (uci_add ''network'' ''interface'' (Some new) st2) (\<lambda>(sid, st3).
                                let st4 = rename_references_net oldName new (copy_options ''network'' sid (s_opts s) st3)
                                in Ret (True, uci_remove ''network'' oldName st4)))))"

section \<open>Wireless networks\<close>

text \<open>\<open>options\<close> is an object whose \<open>device\<close> is the string given; the new section and its identifier.\<close>

definition addWifiNetwork :: "string option \<Rightarrow> uval jsobj \<Rightarrow> uci \<Rightarrow> (string \<times> string option) option jsret \<times> uci" where
  "addWifiNetwork device options st =
     (case device of
        None \<Rightarrow> (Ret None, st)
      | Some d \<Rightarrow>
          (case get_section ''wireless'' (Some d) st of
             (sec, st1) \<Rightarrow>
               if \<not> has_type sec ''wifi-device'' then (Ret None, st1)
               else (case uci_add ''wireless'' ''wifi-iface'' None st1 of
                       Ret (sid, st2) \<Rightarrow>
                         (let st3 = fold (\<lambda>(k, v). uci_set ''wireless'' (Some sid) (Some k) (Some v)) options st2;
                              (netid, st4) = getWifiNetidBySid (Some sid) st3
                          in (Ret (Some (sid, map_option fst netid)), st4))
                     | Throw e \<Rightarrow> (Throw e, st1)
                     | Hang \<Rightarrow> (Hang, st1))))"

definition deleteWifiNetwork :: "radios \<Rightarrow> string \<Rightarrow> uci \<Rightarrow> bool \<times> uci" where
  "deleteWifiNetwork rs netname st =
     (case getWifiSidByIfname rs netname st of None \<Rightarrow> (False, st) | Some sid \<Rightarrow> (True, uci_remove ''wireless'' sid st))"

text \<open>Adding a device to a network and removing it, for a device given by name; \<open>floating\<close> is
  \<open>isFloating()\<close> of the protocol.\<close>

definition addDevice :: "radios \<Rightarrow> bool \<Rightarrow> string \<Rightarrow> string \<Rightarrow> uci \<Rightarrow> bool \<times> uci" where
  "addDevice rs floating sid device st =
     (let dev = ifname_of_string device
      in if floating then (False, st)
         else (case getWifiSidByIfname rs dev st of
                 Some wif \<Rightarrow> appendValue ''wireless'' (Some wif) ''network'' sid st
               | None \<Rightarrow> appendValue ''network'' (Some sid) ''device'' dev st))"

definition deleteDevice :: "radios \<Rightarrow> bool \<Rightarrow> string \<Rightarrow> string \<Rightarrow> uci \<Rightarrow> bool \<times> uci" where
  "deleteDevice rs floating sid device st =
     (let dev = ifname_of_string device
      in if floating then (False, st)
         else (let (rv, st1) = (case getWifiSidByIfname rs dev st of
                                  Some wif \<Rightarrow> removeValue ''wireless'' (Some wif) ''network'' sid st
                                | None \<Rightarrow> (False, st));
                   (rv2, st2) = removeValue ''network'' (Some sid) ''device'' dev st1
               in (rv \<or> rv2, st2)))"

section \<open>Interface status\<close>

record route =
  r_target :: string
  r_mask :: nat
  r_table :: bool

record iface =
  if_interface :: string
  if_proto :: string
  if_metric :: int
  if_route :: "route list"
  if_addresses :: "string list"

text \<open>\<open>r_table\<close>: the route names a table.  \<open>if_addresses\<close> holds the addresses of the three arrays the
  code scans, in that order.\<close>

definition iface_compare :: "(string \<Rightarrow> string \<Rightarrow> int) \<Rightarrow> iface \<Rightarrow> iface \<Rightarrow> int" where
  "iface_compare naturalCompare a b =
     (let c = naturalCompare (int_string 10 (if_metric a)) (int_string 10 (if_metric b))
      in if c \<noteq> 0 then c else naturalCompare (if_interface a) (if_interface b))"

definition getStatusByRoute :: "(string \<Rightarrow> string \<Rightarrow> int) \<Rightarrow> string \<Rightarrow> nat \<Rightarrow> iface list \<Rightarrow> iface list" where
  "getStatusByRoute naturalCompare addr prefix_len ifaces =
     sort_by (iface_compare naturalCompare)
       (concat (map (\<lambda>i. map (\<lambda>_. i)
          (filter (\<lambda>r. \<not> r_table r \<and> r_target r = addr \<and> r_mask r = prefix_len) (if_route i))) ifaces))"

definition getStatusByAddress :: "string \<Rightarrow> iface list \<Rightarrow> iface option" where
  "getStatusByAddress addr ifaces = find (\<lambda>i. addr \<in> set (if_addresses i)) ifaces"

text \<open>The names and protocols of the networks instantiated.\<close>

fun unique_ifaces :: "iface list \<Rightarrow> string list \<Rightarrow> (string \<times> string) list" where
  "unique_ifaces [] seen = []"
| "unique_ifaces (i # is) seen =
     (if if_interface i \<in> set seen then unique_ifaces is seen
      else (if_interface i, if_proto i) # unique_ifaces is (if_interface i # seen))"

definition getWANNetworks :: "(string \<Rightarrow> string \<Rightarrow> int) \<Rightarrow> iface list \<Rightarrow> (string \<times> string) list" where
  "getWANNetworks naturalCompare ifaces = unique_ifaces (getStatusByRoute naturalCompare ''0.0.0.0'' 0 ifaces) []"

definition getWAN6Networks :: "(string \<Rightarrow> string \<Rightarrow> int) \<Rightarrow> iface list \<Rightarrow> (string \<times> string) list" where
  "getWAN6Networks naturalCompare ifaces = unique_ifaces (getStatusByRoute naturalCompare ''::'' 0 ifaces) []"

section \<open>Host hints\<close>

text \<open>The current properties \<open>ipaddrs\<close> and \<open>ip6addrs\<close> and the older \<open>ipv4\<close> and \<open>ipv6\<close>.\<close>

record host =
  h_name :: "string option"
  h_ipaddrs :: "uval option"
  h_ip6addrs :: "uval option"
  h_ipv4 :: "uval option"
  h_ipv6 :: "uval option"

type_synonym hosts = "host jsobj"

text \<open>\<open>a || b\<close>: of the values that occur only the empty string is false.\<close>

definition or_uval :: "uval option \<Rightarrow> uval option \<Rightarrow> uval option" where
  "or_uval a b = (if a = None \<or> a = Some (UStr []) then b else a)"

definition or_none :: "string option \<Rightarrow> string option" where
  "or_none s = (if s = Some [] then None else s)"

definition first_of :: "string list \<Rightarrow> string option" where
  "first_of l = (case l of [] \<Rightarrow> None | x # _ \<Rightarrow> or_none (Some x))"

definition host_addrs :: "bool \<Rightarrow> host \<Rightarrow> string list" where
  "host_addrs v6 h = toArray (if v6 then or_uval (h_ip6addrs h) (h_ipv6 h) else or_uval (h_ipaddrs h) (h_ipv4 h))"

definition getHostnameByMACAddr :: "hosts \<Rightarrow> string \<Rightarrow> string option" where
  "getHostnameByMACAddr hs mac = Option.bind (oget hs mac) (\<lambda>h. or_none (h_name h))"

definition getIPAddrByMACAddr :: "hosts \<Rightarrow> string \<Rightarrow> string option" where
  "getIPAddrByMACAddr hs mac = Option.bind (oget hs mac) (\<lambda>h. first_of (host_addrs False h))"

definition getIP6AddrByMACAddr :: "hosts \<Rightarrow> string \<Rightarrow> string option" where
  "getIP6AddrByMACAddr hs mac = Option.bind (oget hs mac) (\<lambda>h. first_of (host_addrs True h))"

definition hostname_by_addr :: "bool \<Rightarrow> hosts \<Rightarrow> string \<Rightarrow> string option" where
  "hostname_by_addr v6 hs addr =
     Option.bind (find (\<lambda>(_, h). h_name h \<noteq> None \<and> addr \<in> set (host_addrs v6 h)) hs) (\<lambda>(_, h). h_name h)"

definition getHostnameByIPAddr :: "hosts \<Rightarrow> string \<Rightarrow> string option" where
  "getHostnameByIPAddr hs ipaddr = hostname_by_addr False hs ipaddr"

definition getHostnameByIP6Addr :: "hosts \<Rightarrow> string \<Rightarrow> string option" where
  "getHostnameByIP6Addr hs ip6addr = hostname_by_addr True hs ip6addr"

definition mac_by_addr :: "bool \<Rightarrow> hosts \<Rightarrow> string \<Rightarrow> string option" where
  "mac_by_addr v6 hs addr = map_option fst (find (\<lambda>(_, h). addr \<in> set (host_addrs v6 h)) hs)"

definition getMACAddrByIPAddr :: "hosts \<Rightarrow> string \<Rightarrow> string option" where
  "getMACAddrByIPAddr hs ipaddr = mac_by_addr False hs ipaddr"

definition getMACAddrByIP6Addr :: "hosts \<Rightarrow> string \<Rightarrow> string option" where
  "getMACAddrByIP6Addr hs ip6addr = mac_by_addr True hs ip6addr"

definition host_hint :: "bool \<Rightarrow> host \<Rightarrow> string option" where
  "host_hint preferIp6 h =
     (case or_none (h_name h) of
        Some n \<Rightarrow> Some n
      | None \<Rightarrow> (case first_of (host_addrs preferIp6 h) of Some a \<Rightarrow> Some a 
                | None \<Rightarrow> (case host_addrs (\<not> preferIp6) h of [] \<Rightarrow> None | x # _ \<Rightarrow> Some x)))"

definition getMACHints :: "(string \<Rightarrow> string \<Rightarrow> int) \<Rightarrow> bool \<Rightarrow> hosts \<Rightarrow> (string \<times> string option) list" where
  "getMACHints naturalCompare preferIp6 hs =
     sort_by (\<lambda>a b. naturalCompare (fst a) (fst b)) (map (\<lambda>(mac, h). (mac, host_hint preferIp6 h)) hs)"

end
