(* ===== verification/NetworkLaws.thy ===== *)
theory NetworkLaws
  imports Network
begin

text \<open>
  Laws of the network model: netmasks and prefix lengths are inverse to each other, network identifiers of wireless
  interfaces name their sections, deleting a network leaves no reference to it in the configurations it covers, and what
  renaming one leaves behind.
\<close>

section \<open>Netmasks\<close>

definition ones :: "nat \<Rightarrow> nat \<Rightarrow> nat" where
  "ones k b = 2 ^ k - 2 ^ (k - b)"

lemma ones_step:
  assumes "0 < b" "b \<le> k"
  shows "2 ^ (k - 1) \<le> ones k b" "(2 * ones k b) mod 2 ^ k = ones k (b - 1)"
proof -
  obtain j where k: "k = Suc j" using assms by (cases k) auto
  have kk: "(2 :: nat) ^ k = 2 * 2 ^ j" "k - 1 = j" by (simp_all add: k)
  have le: "(2 :: nat) ^ (k - b) \<le> 2 ^ j" using assms k by (intro power_increasing) auto
  then show "2 ^ (k - 1) \<le> ones k b" unfolding ones_def kk by linarith
  have "k - (b - 1) = Suc (k - b)" using assms by simp
  then have p: "(2 :: nat) ^ (k - (b - 1)) = 2 * 2 ^ (k - b)" by simp
  have "2 * ones k b = 2 ^ k + ones k (b - 1)" unfolding ones_def p kk using le by linarith
  moreover have "ones k (b - 1) < 2 ^ k" by (simp add: ones_def)
  ultimately show "(2 * ones k b) mod 2 ^ k = ones k (b - 1)" by simp
qed

lemma shift_ones_all: "b \<le> k \<Longrightarrow> 0 < k \<Longrightarrow> b < f \<Longrightarrow> shift_ones f k (ones k b) bits = (0, bits + b)"
proof (induction f arbitrary: b bits)
  case (Suc f)
  show ?case
  proof (cases "b = 0")
    case True
    then show ?thesis using Suc.prems by (simp add: ones_def)
  next
    case False
    then show ?thesis using ones_step [of b k] Suc.IH [of "b - 1" "Suc bits"] Suc.prems by simp
  qed
qed simp

lemma ones_zero: "ones k b = 0 \<longleftrightarrow> b = 0 \<or> k = 0"
proof -
  have "(2 :: nat) ^ (k - b) < 2 ^ k" if "0 < b" "0 < k" using that by (intro power_strict_increasing) auto
  then show ?thesis by (auto simp: ones_def)
qed

text \<open>Words of \<open>k\<close> bits holding \<open>n\<close> leading ones in all.\<close>

fun ones_words :: "nat \<Rightarrow> nat \<Rightarrow> nat \<Rightarrow> nat list" where
  "ones_words k 0 n = []"
| "ones_words k (Suc j) n = ones k (min k n) # ones_words k j (n - min k n)"

lemma count_ones: "0 < k \<Longrightarrow> n \<le> k * j \<Longrightarrow> (z \<longrightarrow> n = 0) \<Longrightarrow> count_bits k (ones_words k j n) z bits = Some (bits + n)"
proof (induction j arbitrary: n z bits)
  case (Suc j)
  let ?b = "min k n"
  have r: "count_bits k (ones_words k j (n - ?b)) z' b' = Some (b' + (n - ?b))" if "z' \<longrightarrow> n = 0" for z' b'
    using that Suc.prems by (intro Suc.IH) auto
  show ?case
  proof (cases "z \<or> ones k ?b = 0")
    case True
    then have "n = 0" using Suc.prems ones_zero [of k ?b] by auto
    then show ?thesis using r [of True bits] True by (simp add: ones_zero)
  next
    case False
    then show ?thesis using r [of False "bits + ?b"] Suc.prems(1) shift_ones_all [of ?b k "Suc k" bits] by simp
  qed
qed simp

lemma mask_word_ones: "b \<le> 16 \<Longrightarrow> mask_word b = ones 16 b"
proof -
  have "\<forall>b \<in> set [0..<17]. mask_word b = ones 16 b"
    by (simp add: upt_rec mask_word_def ones_def)
  then show "b \<le> 16 \<Longrightarrow> ?thesis" by auto
qed

lemma mask_words_ones: "mask_words j n = ones_words 16 j n"
  by (induction j arbitrary: n) (simp_all add: mask_word_ones Let_def)

lemma mask_octets: "b \<le> 16 \<Longrightarrow> ones 16 b div 256 = ones 8 (min 8 b) \<and> ones 16 b mod 256 = ones 8 (b - min 8 b)"
proof -
  have "\<forall>b \<in> set [0..<17]. ones 16 b div 256 = ones 8 (min 8 b) \<and> ones 16 b mod 256 = ones 8 (b - min 8 b)"
    by (simp add: upt_rec ones_def)
  then show "b \<le> 16 \<Longrightarrow> ?thesis" by auto
qed

lemma ones_less: "ones k b \<le> 2 ^ k - 1"
  by (simp add: ones_def diff_le_mono2)

lemma ones_words_less: "w \<in> set (ones_words k j n) \<Longrightarrow> w \<le> 2 ^ k - 1"
  by (induction j arbitrary: n) (auto intro: ones_less simp del: One_nat_def)

lemma length_ones_words: "length (ones_words k j n) = j"
  by (induction j arbitrary: n) simp_all

lemma four_octets:
  assumes "n \<le> 32"
  shows "[ones 16 (min 16 n) div 256, ones 16 (min 16 n) mod 256, ones 16 (min 16 (n - min 16 n)) div 256, ones 16 (min 16 (n - min 16 n)) mod 256] =
    ones_words 8 4 n"
proof -
  have w: "ones_words 8 4 n = [ones 8 (min 8 n), ones 8 (min 8 (n - min 8 n)), ones 8 (min 8 (n - min 8 n - min 8 (n - min 8 n))),
      ones 8 (min 8 (n - min 8 n - min 8 (n - min 8 n) - min 8 (n - min 8 n - min 8 (n - min 8 n))))]"
  proof -
    have "(4 :: nat) = Suc (Suc (Suc (Suc 0)))" by simp
    then show ?thesis by (simp only: ones_words.simps)
  qed
  note o = mask_octets [of "min 16 n", OF min.cobounded1] mask_octets [of "min 16 (n - min 16 n)", OF min.cobounded1]
  have 1: "min 8 (min 16 n) = min 8 n" by simp
  have 2: "min 16 n - min 8 n = min 8 (n - min 8 n)" by (cases "n \<le> 8"; cases "n \<le> 16") (auto simp: min_def)
  have 3: "min 8 (min 16 (n - min 16 n)) = min 8 (n - min 8 n - min 8 (n - min 8 n))"
    by (cases "n \<le> 8"; cases "n \<le> 16"; cases "n \<le> 24"; cases "n \<le> 32") (auto simp: min_def)
  have 4: "min 16 (n - min 16 n) - min 8 (min 16 (n - min 16 n)) =
      min 8 (n - min 8 n - min 8 (n - min 8 n) - min 8 (n - min 8 n - min 8 (n - min 8 n)))"
    using assms by (cases "n \<le> 8"; cases "n \<le> 16"; cases "n \<le> 24") (auto simp: min_def)
  have a: "ones 16 (min 16 n) mod 256 = ones 8 (min 8 (n - min 8 n))"
    using o(1) [THEN conjunct2] 2 by (simp only: 1)
  have b: "ones 16 (min 16 (n - min 16 n)) mod 256 =
      ones 8 (min 8 (n - min 8 n - min 8 (n - min 8 n) - min 8 (n - min 8 n - min 8 (n - min 8 n))))"
    using o(2) [THEN conjunct2] by (simp only: 4)
  have c: "ones 16 (min 16 n) div 256 = ones 8 (min 8 n)" using o(1) [THEN conjunct1] by (simp only: 1)
  have d: "ones 16 (min 16 (n - min 16 n)) div 256 = ones 8 (min 8 (n - min 8 n - min 8 (n - min 8 n)))"
    using o(2) [THEN conjunct1] by (simp only: 3)
  show ?thesis by (simp only: w a b c d)
qed

section \<open>Abbreviated addresses\<close>

lemma split_dcolon_run: "CHR '':'' \<notin> set g \<Longrightarrow> s \<noteq> [] \<Longrightarrow> split_dcolon (g @ s) seg = split_dcolon s (seg @ g)"
proof (induction g arbitrary: seg)
  case (Cons a g)
  then obtain d r where "g @ s = d # r" by (cases "g @ s") auto
  then show ?case using Cons by auto
qed simp

lemma split_dcolon_trailing:
  assumes "gs \<noteq> []" and "\<forall>g \<in> set gs. g \<noteq> [] \<and> CHR '':'' \<notin> set g"
  shows "split_dcolon (join '':'' gs @ ''::'') seg = [seg @ join '':'' gs, []]"
  using assms
proof (induction "'':''" gs arbitrary: seg rule: join.induct)
  case (2 x)
  then show ?case by (simp add: split_dcolon_run)
next
  case (3 x y ys)
  obtain c r where r: "join '':'' (y # ys) @ ''::'' = c # r" "c \<noteq> CHR '':''"
    using "3.prems"(2) by (cases y; cases ys) auto
  have "split_dcolon (join '':'' (x # y # ys) @ ''::'') seg = split_dcolon (CHR '':'' # c # r) (seg @ x)"
    using "3.prems"(2) split_dcolon_run [of x "CHR '':'' # c # r" seg] by (simp add: r(1) [simplified])
  also have "\<dots> = split_dcolon (join '':'' (y # ys) @ ''::'') (seg @ x @ '':'')" using r by simp
  also have "\<dots> = [(seg @ x @ '':'') @ join '':'' (y # ys), []]" using "3.prems" by (intro "3.hyps") auto
  finally show ?case by simp
qed simp

lemma join_chars: "set (join '':'' gs) \<subseteq> insert CHR '':'' (\<Union> (set ` set gs))"
  by (induction "'':''" gs rule: join.induct) auto

text \<open>The abbreviated text of eight words is parsed back to them.\<close>

lemma hex_string_zero: "hex_string x = ''0'' \<Longrightarrow> x = 0"
  using radix_round_trip [of 16 x] by (simp add: nat_of_radix_def digit_val_def is_digit_def code_def)

lemma zero_groups:
  assumes "length ws = 8" and z: "z = length (takeWhile (\<lambda>g. g = ''0'') (rev (tl (map hex_string ws))))"
  shows "z \<le> 7 \<and> drop (8 - z) ws = replicate z 0"
proof -
  obtain x us where ws: "ws = x # us" "length us = 7" using assms(1) by (cases ws) auto
  have z7: "z \<le> 7" using length_takeWhile_le [of "\<lambda>g. g = ''0''" "rev (map hex_string us)"] by (simp add: z ws)
  have "takeWhile (\<lambda>g. g = ''0'') (rev (map hex_string us)) = take z (rev (map hex_string us))"
    unfolding z ws by (simp only: list.map list.sel takeWhile_eq_take [symmetric])
  then have m: "rev (takeWhile (\<lambda>g. g = ''0'') (rev (map hex_string us))) = map hex_string (drop (7 - z) us)"
    by (simp add: rev_take ws(2) drop_map)
  have "y = 0" if "y \<in> set (drop (7 - z) us)" for y
  proof -
    have "hex_string y \<in> set (rev (takeWhile (\<lambda>g. g = ''0'') (rev (map hex_string us))))" unfolding m using that by simp
    then have "hex_string y = ''0''" by (auto dest: set_takeWhileD)
    then show ?thesis by (rule hex_string_zero)
  qed
  then have "drop (7 - z) us = replicate z 0" using z7 ws(2) by (intro replicate_eqI) auto
  moreover have "8 - z = Suc (7 - z)" using z7 by simp
  ultimately show ?thesis using z7 by (simp add: ws)
qed

lemma parse_words_zero: "parse_words [''0''] = Some [0]"
  by code_simp


lemma replicate_last: "0 < z \<Longrightarrow> replicate (z - 1) x @ [x] = replicate z x"
  by (cases z) (simp_all add: replicate_append_same)

lemma parse_collapsed:
  assumes l: "length ws = 8" and w: "\<forall>x \<in> set ws. x < 65536"
  shows "parseIPv6 (collapse_zeros (map hex_string ws)) = Some ws"
proof -
  define z where "z = length (takeWhile (\<lambda>g. g = ''0'') (rev (tl (map hex_string ws))))"
  show ?thesis
  proof (cases "2 \<le> z")
    case False
    then have "collapse_zeros (map hex_string ws) = join '':'' (map hex_string ws)"
      by (simp only: collapse_zeros_def z_def [symmetric] Let_def if_False)
    then show ?thesis using parse_ipv6_text [OF assms] by simp
  next
    case True
    have z7: "z \<le> 7" and zeros: "drop (8 - z) ws = replicate z 0" using zero_groups [OF l z_def] by simp_all
    define us where "us = take (8 - z) ws"
    define gs where "gs = map hex_string us"
    let ?x = "join '':'' gs @ ''::''"
    have x: "collapse_zeros (map hex_string ws) = ?x"
      using True l by (simp only: collapse_zeros_def z_def [symmetric] Let_def if_True length_map take_map gs_def us_def)
    have lu: "length us = 8 - z" using l by (simp add: us_def)
    have hx: "hex_colon c" if "c \<in> set ?x" for c
      using that join_chars [of gs] by (auto simp: hex_colon_def gs_def dest: hex_string_hex)
    have dot: "CHR ''.'' \<notin> set ?x" using hx [of "CHR ''.''"] by (auto simp: hex_colon_def is_hex_def is_digit_def code_def)
    have g: "gs \<noteq> []" "\<forall>g \<in> set gs. g \<noteq> [] \<and> CHR '':'' \<notin> set g"
      using lu z7 hex_string_hex hex_facts(3) by (auto simp: gs_def)
    have sp: "split_dcolon ?x [] = [join '':'' gs, []]" using split_dcolon_trailing [OF g, of "[]"] by simp
    have jn: "join '':'' gs \<noteq> []" using g by (cases gs; cases "tl gs") auto
    have so: "split_on CHR '':'' (join '':'' gs) = gs" using g by (intro split_on_join) auto
    have pw: "parse_words gs = Some us" unfolding gs_def using w by (intro parse_words_hex) (auto simp: us_def dest: in_set_takeD)
    have "us @ replicate (z - 1) 0 @ [0] = ws"
      using zeros append_take_drop_id [of "8 - z" ws] replicate_last [of z "0 :: nat"] True by (simp add: us_def)
    moreover have "8 - length gs - 1 = z - 1" using lu z7 by (simp add: gs_def)
    moreover have "length gs + 1 \<le> 7" using lu True z7 by (simp add: gs_def)
    ultimately have "parse_groups ?x = Some ws"
      using hx sp jn so pw parse_words_zero
      by (simp add: parse_groups_def Let_def list_all_iff or_zero_string_def)
    then show ?thesis unfolding x parseIPv6_def mapped_needs_dot [OF dot] by simp
  qed
qed

section \<open>Netmasks and prefix lengths\<close>

text \<open>C11. Converting a prefix length to a netmask and back gives the prefix length, for both address families; longer
  prefixes have no mask.  The way back is not injective: the mask 255.192.255.0, whose ones are not contiguous, is taken
  for a prefix of 18.\<close>

theorem prefix_mask_round_trip:
  "(if n \<le> (if v6 then 128 else 32)
    then \<exists>m. prefixToMask n v6 = Some m \<and> maskToPrefix m v6 = Some n
    else prefixToMask n v6 = None) \<and> maskToPrefix ''255.192.255.0'' False = Some 18"
proof
  have six: "maskToPrefix (collapse_zeros (map hex_string (mask_words 8 n))) True = Some n" if "n \<le> 128" for n
  proof -
    have "parseIPv6 (collapse_zeros (map hex_string (mask_words 8 n))) = Some (mask_words 8 n)"
      using ones_words_less [of _ 16 8 n] by (intro parse_collapsed) (force simp: mask_words_ones length_ones_words)+
    then show ?thesis using count_ones [of 16 n 8 False 0] that by (simp add: maskToPrefix_def mask_words_ones)
  qed
  have four: "maskToPrefix (join ''.'' (map dec_string (ones_words 8 4 n))) False = Some n" if "n \<le> 32" for n
  proof -
    have "parseIPv4 (join ''.'' (map dec_string (ones_words 8 4 n))) = Some (ones_words 8 4 n)"
      using ones_words_less [of _ 8 4 n] by (intro parse_ipv4_text) (force simp: length_ones_words)+
    then show ?thesis using count_ones [of 8 n 4 False 0] that by (simp add: maskToPrefix_def)
  qed
  have w: "mask_words 2 n = [ones 16 (min 16 n), ones 16 (min 16 (n - min 16 n))]"
    by (simp only: mask_words_ones numeral_2_eq_2 ones_words.simps)
  show "if n \<le> (if v6 then 128 else 32)
    then \<exists>m. prefixToMask n v6 = Some m \<and> maskToPrefix m v6 = Some n
    else prefixToMask n v6 = None"
  proof (cases v6)
    case True
    then show ?thesis using six [of n] by (simp add: prefixToMask_def)
  next
    case False
    have "prefixToMask n False = Some (join ''.'' (map dec_string (ones_words 8 4 n)))" if "n \<le> 32"
    proof -
      have "prefixToMask n False = Some (join ''.'' (map dec_string
          [mask_words 2 n ! 0 div 256, mask_words 2 n ! 0 mod 256, mask_words 2 n ! 1 div 256, mask_words 2 n ! 1 mod 256]))"
        using that by (simp add: prefixToMask_def Let_def del: join.simps list.map)
      also have "\<dots> = Some (join ''.'' (map dec_string (ones_words 8 4 n)))"
        unfolding four_octets [OF that, symmetric] w nth_Cons_0 by (simp only: One_nat_def nth_Cons_Suc nth_Cons_0)
      finally show ?thesis .
    qed
    then show ?thesis using False four [of n] by (simp add: prefixToMask_def)
  qed
  show "maskToPrefix ''255.192.255.0'' False = Some 18" by code_simp
qed


section \<open>Configurations are independent\<close>

text \<open>What the cache holds of one configuration.\<close>

definition conf_view :: "string \<Rightarrow> uci \<Rightarrow>
    uci_section jsobj option \<times> uval jsobj jsobj option \<times> dels jsobj option \<times> uci_section jsobj option" where
  "conf_view c st = (oget (st_values st) c, oget (changes st) c, oget (deletes st) c, oget (creates st) c)"

lemma oget_oset2_other [simp]: "a \<noteq> c \<Longrightarrow> oget (oset2 a b v m) c = oget m c"
  by (simp add: oset2_def)

lemma oget_odel2_other [simp]: "a \<noteq> c \<Longrightarrow> oget (odel2 a b m) c = oget m c"
  by (simp add: odel2_def split: option.split)

lemma view_sections: "conf_view c st' = conf_view c st \<Longrightarrow> uci_sections c ty st' = uci_sections c ty st"
  by (simp add: conf_view_def uci_sections_def sections_raw_def oget2_def split: option.split)

lemma view_get: "conf_view c st' = conf_view c st \<Longrightarrow> plain_sid i \<Longrightarrow> uci_get c (Some i) k st' = uci_get c (Some i) k st"
  by (simp add: conf_view_def uci_get_eff oget2_def)

lemma view_remove: "conf \<noteq> c \<Longrightarrow> conf_view c (uci_remove conf i st) = conf_view c st"
  by (simp add: conf_view_def uci_remove_def)

lemma view_set: "conf \<noteq> c \<Longrightarrow> conf_view c (uci_set conf sid opt v st) = conf_view c st"
  by (simp add: conf_view_def uci_set_def set_created_def set_changed_def set_deleted_def undelete_def revert_change_def
      mark_deleted_def Let_def split: option.split dels.split)

lemma view_unset: "conf \<noteq> c \<Longrightarrow> conf_view c (uci_unset conf sid opt st) = conf_view c st"
  by (simp add: uci_unset_def view_set)

lemma view_get_section: "conf \<noteq> c \<Longrightarrow> conf_view c (snd (get_section conf sid st)) = conf_view c st"
  by (cases rule: get_section_cases [of conf sid st]) (simp_all add: conf_view_def oset2_def)

lemma view_fold: "(\<And>x s. x \<in> set xs \<Longrightarrow> conf_view c (f x s) = conf_view c s) \<Longrightarrow> conf_view c (fold f xs st) = conf_view c st"
  by (induction xs arbitrary: st) auto

lemma view_remove_where: "conf \<noteq> c \<Longrightarrow> conf_view c (remove_where conf ty p st) = conf_view c st"
  unfolding remove_where_def by (rule view_fold) (rule view_remove)

lemmas view_ops = view_remove view_set view_unset view_get_section view_remove_where

text \<open>The sections of a type are those of the configuration that have it.\<close>

lemma reindex_typed_names: "map s_name (filter (\<lambda>s. P (s_type s)) (reindex i ss)) = map s_name (filter (\<lambda>s. P (s_type s)) ss)"
  by (induction i ss rule: reindex.induct) auto

lemma merge_type: "s_type (merge_changes ch sid s) = s_type s"
  by (simp add: merge_changes_def split: option.split)

lemma typed_names:
  "map s_name (uci_sections c ty st) = map s_name (filter (type_matches ty) (uci_sections c None st))"
proof (cases "oget (st_values st) c")
  case (Some v)
  define P where "P = (\<lambda>t. case ty of None \<Rightarrow> True | Some u \<Rightarrow> u = [] \<or> t = u)"
  have P: "type_matches ty = (\<lambda>s. P (s_type s))" by (auto simp: type_matches_def P_def split: option.split)
  have r: "sections_raw c ty st v = filter (\<lambda>s. P (s_type s)) (sections_raw c None st v)"
    unfolding sections_raw_def P
    by (simp add: type_matches_def filter_map comp_def case_prod_unfold merge_type filter_filter conj_commute split: option.split)
  have "map s_name (uci_sections c ty st) = map s_name (filter (\<lambda>s. P (s_type s)) (sort_key s_index (sections_raw c None st v)))"
    using reindex_typed_names [of "\<lambda>_. True" 0 "sort_key s_index (sections_raw c ty st v)"]
    by (simp add: uci_sections_def Some r filter_sort)
  then show ?thesis using reindex_typed_names [of P 0] by (simp add: uci_sections_def Some P)
qed (simp add: uci_sections_def)

lemma typed_distinct: "uci_wf st \<Longrightarrow> disjoint_new st \<Longrightarrow> distinct (map s_name (uci_sections c ty st))"
  using sections_distinct [of st c] by (simp add: typed_names distinct_map_filter)

lemma sections_writable:
  assumes "uci_wf st" "s \<in> set (uci_sections c ty st)"
  shows "plain_sid (s_name s) \<and> writable st c (s_name s)"
proof (cases "oget (st_values st) c")
  case None
  then show ?thesis using assms(2) by (simp add: uci_sections_def)
next
  case (Some v)
  have "s_name s \<in> set (map s_name (uci_sections c ty st))" using assms(2) by simp
  then have "s_name s \<in> set (map s_name (uci_sections c None st))"
    unfolding typed_names [of c ty] by auto
  then have "s_name s \<in> set (eff_names c st)" using sections_name_set [OF assms(1) Some] by (metis set_mset_mset)
  then have w: "writable st c (s_name s)" using eff_names_iff [OF Some] by (simp add: writable_def)
  then show ?thesis using assms(1) by (auto simp: writable_def uci_wf_def store_wf_def)
qed

lemma disjoint_set: "disjoint_new st \<Longrightarrow> disjoint_new (uci_set conf sid opt v st)"
  by (auto simp: disjoint_new_def uci_set_def set_created_def set_changed_def set_deleted_def Let_def
      split: option.split if_splits) (metis option.distinct(1))+

section \<open>Deleting a network\<close>

lemma remove_where_left:
  assumes "uci_wf st" "disjoint_new st"
  shows "uci_wf (remove_where conf ty p st)" "disjoint_new (remove_where conf ty p st)"
    "x \<in> set (uci_sections conf ty (remove_where conf ty p st)) \<Longrightarrow>
       \<exists>y \<in> set (uci_sections conf ty st). same_section x y \<and> \<not> p y"
proof -
  let ?ns = "map s_name (filter p (uci_sections conf ty st))"
  note r = remove_all [OF assms, of conf ?ns ty]
  show "uci_wf (remove_where conf ty p st)" "disjoint_new (remove_where conf ty p st)"
    using r unfolding remove_where_def by blast+
  assume "x \<in> set (uci_sections conf ty (remove_where conf ty p st))"
  then obtain y where "y \<in> set (uci_sections conf ty st)" "same_section x y" "s_name y \<notin> set ?ns"
    using r unfolding remove_where_def by meson
  then show "\<exists>y \<in> set (uci_sections conf ty st). same_section x y \<and> \<not> p y" by auto
qed

lemma same_reference: "same_section x y \<Longrightarrow> net_reference n x = net_reference n y" "same_section x y \<Longrightarrow> opt_is k n x = opt_is k n y"
  by (simp_all add: same_section_def net_reference_def opt_is_def)

lemma words_acc_word: "\<forall>c \<in> set w. \<not> is_space c \<Longrightarrow> words_acc (w @ s) acc = words_acc s (acc @ w)"
  by (induction w arbitrary: acc) simp_all

lemma words_acc_clean:
  "\<forall>c \<in> set acc. \<not> is_space c \<Longrightarrow> w \<in> set (words_acc s acc) \<Longrightarrow> w \<noteq> [] \<and> (\<forall>c \<in> set w. \<not> is_space c)"
proof (induction s arbitrary: acc)
  case (Cons c s)
  show ?case
  proof (cases "is_space c")
    case True
    then have "w \<in> set (words_acc s []) \<or> (acc \<noteq> [] \<and> w = acc)" using Cons.prems(2) by (cases "acc = []") auto
    then show ?thesis
    proof
      assume "w \<in> set (words_acc s [])"
      then show ?thesis by (intro Cons.IH [of "[]"]) simp_all
    next
      assume "acc \<noteq> [] \<and> w = acc"
      then show ?thesis using Cons.prems(1) by blast
    qed
  next
    case False
    have "w \<in> set (words_acc s (acc @ [c]))" using Cons.prems(2) False by (simp only: words_acc.simps if_False)
    moreover have "\<forall>d \<in> set (acc @ [c]). \<not> is_space d" using Cons.prems(1) False by auto
    ultimately show ?thesis by (intro Cons.IH)
  qed
next
  case Nil
  then show ?case by (cases "acc = []") auto
qed

lemma words_join:
  "\<forall>w \<in> set ws. w \<noteq> [] \<and> (\<forall>c \<in> set w. \<not> is_space c) \<Longrightarrow> words_acc (join '' '' ws) [] = ws"
proof (induction "'' ''" ws rule: join.induct)
  case (2 w)
  then show ?case using words_acc_word [of w "[]" "[]"] by simp
next
  case (3 w v ws)
  have sp: "is_space CHR '' ''" by code_simp
  show ?case using 3 words_acc_word [of w "CHR '' '' # join '' '' (v # ws)" "[]"] sp by simp
qed simp

text \<open>A list value names networks by words.\<close>

definition word_list :: "uval option \<Rightarrow> bool" where
  "word_list v = (case v of Some (UList l) \<Rightarrow> list_all (\<lambda>w. w \<noteq> [] \<and> list_all (\<lambda>c. \<not> is_space c) w) l | _ \<Rightarrow> True)"

lemma toArray_words: "word_list v \<Longrightarrow> w \<in> set (toArray v) \<Longrightarrow> w \<noteq> [] \<and> (\<forall>c \<in> set w. \<not> is_space c)"
  using words_acc_clean [of "[]" w]
  by (auto simp: word_list_def toArray_def list_all_iff split: option.splits uval.splits)

definition joined :: "string list \<Rightarrow> uval option" where
  "joined ws = (if ws = [] then None else Some (UStr (join '' '' ws)))"

lemma toArray_joined: "\<forall>w \<in> set ws. w \<noteq> [] \<and> (\<forall>c \<in> set w. \<not> is_space c) \<Longrightarrow> toArray (joined ws) = ws"
  by (simp add: toArray_def joined_def words_join ustr_def)

lemma joined_storable: "\<forall>w \<in> set ws. w \<noteq> [] \<Longrightarrow> joined ws \<noteq> Some (UStr [])"
  by (cases ws; cases "tl ws") (auto simp: joined_def)

definition iface_networks :: "uci_section \<Rightarrow> string list" where
  "iface_networks s = toArray (oget (s_opts s) ''network'')"

lemma drop_from_iface_set: "drop_from_iface name s st =
   uci_set ''wireless'' (Some (s_name s)) (Some ''network'') (joined (filter (\<lambda>n. n \<noteq> name) (iface_networks s))) st"
  by (simp add: drop_from_iface_def joined_def iface_networks_def uci_unset_def Let_def)

lemma fold_set_get:
  assumes "uci_wf st" "\<forall>s \<in> set ss. plain_sid (s_name s) \<and> writable st c (s_name s) \<and> f s \<noteq> Some (UStr [])"
    "distinct (map s_name ss)" "plain_opt k" "plain_sid i"
  shows "uci_get c (Some i) k (fold (\<lambda>s. uci_set c (Some (s_name s)) (Some k) (f s)) ss st) =
    (case find (\<lambda>s. s_name s = i) ss of Some s \<Rightarrow> f s | None \<Rightarrow> uci_get c (Some i) k st)"
  using assms(1-3)
proof (induction ss arbitrary: st)
  case (Cons s ss)
  let ?st = "uci_set c (Some (s_name s)) (Some k) (f s) st"
  have w: "uci_wf ?st" using Cons.prems by (simp add: uci_set_wf)
  have g: "uci_get c (Some i) k ?st = (if i = s_name s then f s else uci_get c (Some i) k st)"
    using Cons.prems assms(4,5) by (subst uc.get_put) auto
  have "find (\<lambda>t. s_name t = s_name s) ss = None"
    using Cons.prems(3) unfolding find_None_iff by (metis distinct.simps(2) image_eqI list.map(2) list.set_map)
  then show ?case using Cons.IH [OF w] Cons.prems g by (auto simp: writable_set split: option.split)
qed simp

lemma fold_set_keeps:
  assumes "uci_wf st" "disjoint_new st"
  shows "uci_wf (fold (\<lambda>s. uci_set c (Some (s_name s)) (Some k) (f s)) ss st) \<and>
    disjoint_new (fold (\<lambda>s. uci_set c (Some (s_name s)) (Some k) (f s)) ss st)"
  using assms by (induction ss arbitrary: st) (simp_all add: uci_set_wf disjoint_set)

lemma find_by_name: "s \<in> set ss \<Longrightarrow> distinct (map s_name ss) \<Longrightarrow> find (\<lambda>t. s_name t = s_name s) ss = Some s"
  by (induction ss) (auto simp: rev_image_eqI)

text \<open>The firewall only touches its own configuration.\<close>

lemma view_load_firewall: "c \<noteq> ''firewall'' \<Longrightarrow> conf_view c (initFirewallState fetch st) = conf_view c st"
  by (simp add: initFirewallState_def uci_load_def loadPackage_def conf_view_def store_package_def Let_def split: option.split)

lemma view_new_Zone: "c \<noteq> ''firewall'' \<Longrightarrow> new_Zone n st = Ret (z, st') \<Longrightarrow> conf_view c st' = conf_view c st"
  using view_get_section [of "''firewall''" c n st] view_get_section [of "''firewall''" c "Some ''zone''" "snd (get_section ''firewall'' n st)"]
  by (auto simp: new_Zone_def split_beta Let_def jbind_def split: option.splits if_splits jsret.splits)

lemma view_new_Zones: "c \<noteq> ''firewall'' \<Longrightarrow> new_Zones ns st = Ret (zs, st') \<Longrightarrow> conf_view c st' = conf_view c st"
  by (induction ns arbitrary: st zs st') (auto simp: jbind_def dest!: view_new_Zone [of c] split: jsret.splits)

lemma view_delete_from_zones: "c \<noteq> ''firewall'' \<Longrightarrow> conf_view c (snd (delete_from_zones zs n st rv)) = conf_view c st"
  by (induction zs arbitrary: st rv) (simp_all add: zone_deleteNetwork_def item_set_def Let_def view_set)

lemma view_fw_deleteNetwork:
  assumes "c \<noteq> ''firewall''" "fw_deleteNetwork js_sort fetch n st = Ret (b, st')"
  shows "conf_view c st' = conf_view c st"
proof -
  let ?st0 = "initFirewallState fetch st"
  from assms(2) obtain zs st1 where z: "new_Zones (map s_name (uci_sections ''firewall'' (Some ''zone'') ?st0)) ?st0 = Ret (zs, st1)"
    and d: "st' = snd (delete_from_zones (js_sort zs) n st1 False)"
    by (auto simp: fw_deleteNetwork_def getZones_def Let_def jbind_def split: jsret.splits)
  show ?thesis
    using view_new_Zones [OF assms(1) z] view_delete_from_zones [OF assms(1)] view_load_firewall [OF assms(1)] by (simp add: d)
qed

lemma drop_all_networks:
  assumes "uci_wf st" "disjoint_new st"
    and w: "\<forall>t \<in> set (uci_sections ''wireless'' (Some ''wifi-iface'') st). word_list (oget (s_opts t) ''network'')"
    and s: "s \<in> set (uci_sections ''wireless'' (Some ''wifi-iface'') st)"
  shows "toArray (uci_get ''wireless'' (Some (s_name s)) ''network''
      (fold (drop_from_iface name) (uci_sections ''wireless'' (Some ''wifi-iface'') st) st)) =
    filter (\<lambda>n. n \<noteq> name) (iface_networks s)"
proof -
  define f where "f = (\<lambda>s. joined (filter (\<lambda>n. n \<noteq> name) (iface_networks s)))"
  let ?ss = "uci_sections ''wireless'' (Some ''wifi-iface'') st"
  have words: "\<forall>n \<in> set (filter (\<lambda>n. n \<noteq> name) (iface_networks t)). n \<noteq> [] \<and> (\<forall>c \<in> set n. \<not> is_space c)" if "t \<in> set ?ss" for t
    using that w toArray_words by (auto simp: iface_networks_def)
  have all: "\<forall>t \<in> set ?ss. plain_sid (s_name t) \<and> writable st ''wireless'' (s_name t) \<and> f t \<noteq> Some (UStr [])"
    using sections_writable [OF assms(1)] words joined_storable by (auto simp: f_def)
  have d: "distinct (map s_name ?ss)" by (rule typed_distinct [OF assms(1,2)])
  have "uci_get ''wireless'' (Some (s_name s)) ''network'' (fold (\<lambda>s. uci_set ''wireless'' (Some (s_name s)) (Some ''network'') (f s)) ?ss st) = f s"
    using fold_set_get [OF assms(1) all d, of "''network''" "s_name s"] all s find_by_name [OF s d] by (simp add: plain_opt_def)
  then show ?thesis using toArray_joined [OF words [OF s]] by (simp add: f_def drop_from_iface_set [abs_def])
qed

lemma drop_all_keeps:
  assumes "uci_wf st" "disjoint_new st"
  shows "uci_wf (fold (drop_from_iface name) ss st)" "disjoint_new (fold (drop_from_iface name) ss st)"
    "c \<noteq> ''wireless'' \<Longrightarrow> conf_view c (fold (drop_from_iface name) ss st) = conf_view c st"
  unfolding drop_from_iface_set [abs_def] by (simp_all only: fold_set_keeps [OF assms]) (simp add: view_fold view_set)

lemma delete_references_laws:
  assumes wf: "uci_wf st" "disjoint_new st"
  shows "x \<in> set (uci_sections ''luci'' (Some ''ifstate'') (delete_references name st)) \<Longrightarrow> \<not> opt_is ''interface'' name x"
    "y \<in> set (uci_sections ''dhcp'' (Some ''dhcp'') (delete_references name st)) \<Longrightarrow> \<not> opt_is ''interface'' name y"
    "z \<in> set (uci_sections ''network'' None (delete_references name st)) \<Longrightarrow>
       \<not> net_reference name z \<and> (\<exists>y \<in> set (uci_sections ''network'' None st). same_section z y)"
    "\<forall>t \<in> set (uci_sections ''wireless'' (Some ''wifi-iface'') st). word_list (oget (s_opts t) ''network'') \<Longrightarrow>
       s \<in> set (uci_sections ''wireless'' (Some ''wifi-iface'') st) \<Longrightarrow>
       toArray (uci_get ''wireless'' (Some (s_name s)) ''network'' (delete_references name st)) =
         filter (\<lambda>n. n \<noteq> name) (iface_networks s)"
proof -
  let ?wi = "uci_sections ''wireless'' (Some ''wifi-iface'')"
  define st1 where "st1 = remove_where ''luci'' (Some ''ifstate'') (opt_is ''interface'' name) st"
  define st2 where "st2 = remove_where ''network'' None (net_reference name) st1"
  define st3 where "st3 = fold (drop_from_iface name) (?wi st2) st2"
  have r: "delete_references name st = remove_where ''dhcp'' (Some ''dhcp'') (opt_is ''interface'' name) st3"
    by (simp add: delete_references_def st3_def st2_def st1_def Let_def)
  note w1 = remove_where_left [OF wf, where conf = "''luci''" and ty = "Some ''ifstate''" and p = "opt_is ''interface'' name", folded st1_def]
  note w2 = remove_where_left [OF w1(1,2), where conf = "''network''" and ty = None and p = "net_reference name", folded st2_def]
  note w3 = drop_all_keeps [OF w2(1,2), where name = name and ss = "?wi st2", folded st3_def]
  have v: "c \<noteq> ''wireless'' \<Longrightarrow> c \<noteq> ''dhcp'' \<Longrightarrow> conf_view c (delete_references name st) = conf_view c st2" for c
    by (simp add: r view_ops w3(3))
  have v1: "c \<noteq> ''luci'' \<Longrightarrow> conf_view c st1 = conf_view c st" for c by (simp add: st1_def view_ops)
  have v2: "c \<noteq> ''network'' \<Longrightarrow> conf_view c st2 = conf_view c st1" for c by (simp add: st2_def view_ops)
  show "\<not> opt_is ''interface'' name x" if "x \<in> set (uci_sections ''luci'' (Some ''ifstate'') (delete_references name st))"
    using that w1(3) same_reference(2) view_sections [OF v] view_sections [OF v2] by fastforce
  show "\<not> opt_is ''interface'' name y" if "y \<in> set (uci_sections ''dhcp'' (Some ''dhcp'') (delete_references name st))"
    using that remove_where_left(3) [OF w3(1,2)] same_reference(2) unfolding r by blast
  show "\<not> net_reference name z \<and> (\<exists>y \<in> set (uci_sections ''network'' None st). same_section z y)"
    if "z \<in> set (uci_sections ''network'' None (delete_references name st))"
  proof -
    have "z \<in> set (uci_sections ''network'' None st2)" using that view_sections [OF v] by simp
    then obtain y where "y \<in> set (uci_sections ''network'' None st1)" "same_section z y" "\<not> net_reference name y" using w2(3) by blast
    then show ?thesis using same_reference(1) view_sections [OF v1, of "''network''" None] by auto
  qed
  have ss: "?wi st2 = ?wi st" using view_sections [OF v2] view_sections [OF v1] by simp
  show "toArray (uci_get ''wireless'' (Some (s_name s)) ''network'' (delete_references name st)) = filter (\<lambda>n. n \<noteq> name) (iface_networks s)"
    if "\<forall>t \<in> set (?wi st). word_list (oget (s_opts t) ''network'')" "s \<in> set (?wi st)"
    using drop_all_networks [OF w2(1,2), of s name] that sections_writable [OF wf(1) that(2)]
      view_get [OF view_remove_where, of "''dhcp''" "''wireless''"]
    by (simp add: r st3_def ss)
qed


section \<open>Wireless network identifiers\<close>

definition netid_tail :: rexp where
  "netid_tail = RSeq (RStr ''.network'') (RSeq (RGrp 2 (RPlus (RChr is_digit))) REnd)"

lemma netid_re_unfold: "netid_re = RSeq (RGrp 1 (RPlus (RChr is_word))) netid_tail"
  by (simp add: netid_re_def netid_tail_def)

lemma dot_not_word: "\<not> is_word CHR ''.''"
  by code_simp

lemma match_seq_single: "rmatch a s = [([], t)] \<Longrightarrow> rmatch (RSeq a b) s = rmatch b t"
  by (simp add: case_prod_unfold)

lemma match_seq_none: "rmatch a s = [] \<Longrightarrow> rmatch (RSeq a b) s = []"
  by simp

lemma match_lit: "rmatch (RLit c) (c # s) = [([], s)]" "c \<noteq> d \<Longrightarrow> rmatch (RLit c) (d # s) = []"
  by (simp_all add: RLit_def)

lemma match_str: "rmatch (RStr l) (l @ s) = [([], s)]"
proof (induction l)
  case (Cons c l)
  then show ?case using match_seq_single [OF match_lit(1), where b = "RStr l"] by (simp del: rmatch.simps)
qed simp

lemma netid_tail_no_word: "is_word c \<Longrightarrow> rmatch netid_tail (c # u) = []"
  unfolding netid_tail_def RStr.simps by (intro match_seq_none match_lit(2)) (use dot_not_word in auto)

lemma netid_tail_match: "rmatch netid_tail (CHR ''.'' # ''network'' @ dec_string n) = [([(2, dec_string n)], [])]"
proof -
  have "dropWhile is_digit (dec_string n) = []" using dec_string_digits by (auto simp: dropWhile_eq_Nil_conv)
  moreover have "fits (length (dec_string n)) 1 None" by (cases "dec_string n") auto
  ultimately have r: "rmatch (RSeq (RGrp 2 (RPlus (RChr is_digit))) REnd) (dec_string n) = [([(2, dec_string n)], [])]"
    by (subst rmatch_run_end [OF repeats_plus]) simp
  have "rmatch netid_tail (''.network'' @ dec_string n) = [([(2, dec_string n)], [])]"
    unfolding netid_tail_def match_seq_single [OF match_str] by (rule r)
  then show ?thesis by simp
qed

lemma exec_netid:
  assumes "d \<noteq> []" "\<forall>c \<in> set d. is_word c"
  shows "exec netid_re (netid_string d n) = Some [(1, d), (2, dec_string n)]"
proof -
  let ?t = "CHR ''.'' # ''network'' @ dec_string n"
  have x: "netid_string d n = d @ ?t" by (simp add: netid_string_def)
  have t: "takeWhile is_word (d @ ?t) = d" "dropWhile is_word (d @ ?t) = ?t"
    using assms(2) dot_not_word by (simp_all add: takeWhile_append2 dropWhile_append2)
  have "fits (length d) 1 None" using assms(1) by (cases d) auto
  moreover have "rmatch netid_re s = (if fits (length (takeWhile is_word s)) 1 None
      then map (\<lambda>(ds, u). ((1, takeWhile is_word s) # ds, u)) (rmatch netid_tail (dropWhile is_word s)) else [])" for s
    unfolding netid_re_unfold by (rule rmatch_run_then [OF repeats_plus]) (rule netid_tail_no_word)
  ultimately have "rmatch netid_re (d @ ?t) = [([(1, d), (2, dec_string n)], [])]"
    by (simp only: t netid_tail_match if_True list.map prod.case)
  then show ?thesis by (simp add: exec_def x)
qed

lemma position_later: "position_of dev name n ss = Some k \<Longrightarrow> n < k"
  by (induction ss arbitrary: n) (auto split: if_splits dest: Suc_lessD)

lemma position_nth:
  "position_of dev name n ss = Some k \<Longrightarrow> distinct (map s_name ss) \<Longrightarrow> nth_of_device dev k n ss = Some name"
  by (induction ss arbitrary: n) (auto split: if_splits dest: position_later)

text \<open>C19. The network identifier of a wireless interface section leads back to the section: whenever
  \<open>getWifiNetidBySid\<close> gives one for a device named by word characters, \<open>getWifiSidByNetid\<close> finds the
  section it was computed from.\<close>

theorem wifi_netid_round_trip:
  assumes "uci_wf st" "disjoint_new st" "getWifiNetidBySid sid st = (Some (netid, d), st')" "d \<noteq> []" "list_all is_word d"
  shows "\<exists>s. fst (get_section ''wireless'' sid st) = Some s \<and> getWifiSidByNetid netid st' = Some (s_name s)"
proof -
  from assms(3) obtain s n where s: "get_section ''wireless'' sid st = (Some s, st')"
    and p: "position_of (Some (UStr d)) (s_name s) 0 (uci_sections ''wireless'' (Some ''wifi-iface'') st') = Some n"
    and n: "netid = netid_string d n"
    by (auto simp: getWifiNetidBySid_def split: prod.splits option.splits if_splits uval.splits)
  have w: "uci_wf st'" "disjoint_new st'"
    using get_section_wf [OF assms(1), of "''wireless''" sid] disjoint_get_section [OF assms(2), of "''wireless''" sid] s by simp_all
  have "nth_of_device (Some (UStr d)) n 0 (uci_sections ''wireless'' (Some ''wifi-iface'') st') = Some (s_name s)"
    using position_nth [OF p typed_distinct [OF w]] .
  then have "getWifiSidByNetid netid st' = Some (s_name s)"
    using exec_netid [OF assms(4), of n] assms(5) by (simp add: getWifiSidByNetid_def n list_all_iff cap_def radix_round_trip)
  then show ?thesis using s by simp
qed

section \<open>A sample configuration\<close>

definition net_sample :: uci where
  "net_sample = sample\<lparr>st_values := [
     (''network'', [(''lan'', sample_section ''interface'' ''lan'' 0 [(''proto'', UStr ''static'')]),
        (''r1'', sample_section ''route'' ''r1'' 1 [(''interface'', UStr ''lan'')]),
        (''u1'', sample_section ''rule'' ''u1'' 2 [(''in'', UStr ''lan'')])]),
     (''wireless'', [(''w1'', sample_section ''wifi-iface'' ''w1'' 0 [(''device'', UStr ''radio0''), (''network'', UStr ''guest'')]),
        (''w2'', sample_section ''wifi-iface'' ''w2'' 1 [(''device'', UStr ''radio0''), (''network'', UStr ''lan guest'')])]),
     (''dhcp'', [(''d1'', sample_section ''dhcp'' ''d1'' 0 [(''interface'', UStr ''lan'')])]),
     (''firewall'', [])],
     creates := [], changes := [], deletes := []\<rparr>"

lemma net_sample_wf: "uci_wf net_sample" "disjoint_new net_sample"
proof -
  have "owf2 (st_values net_sample)" by (simp add: net_sample_def owf2_def owf_def oget_def)
  moreover have "sec_wf sid s \<and> plain_sid sid" if "oget2 (st_values net_sample) conf sid = Some s" for conf sid s
    using that
    by (auto simp: net_sample_def oget2_def oget_def sec_wf_def sample_section_def owf_def okeys_def plain_sid_def plain_opt_def
        split: if_splits)
  ultimately have "store_wf (st_values net_sample)" by (auto simp: store_wf_def)
  then show "uci_wf net_sample"
    by (simp add: uci_wf_def net_sample_def store_wf_def changes_wf_def deletes_wf_def pending_wf_def pend_ok_def)
  show "disjoint_new net_sample" by (simp add: disjoint_new_def net_sample_def)
qed


theorem wifi_netid_round_trip_witness:
  "getWifiSidByNetid ''radio0.network2'' (snd (getWifiNetidBySid (Some ''w2'') net_sample)) = Some ''w2''"
proof -
  have g: "getWifiNetidBySid (Some ''w2'') net_sample = (Some (''radio0.network2'', ''radio0''), snd (getWifiNetidBySid (Some ''w2'') net_sample))"
  proof -
    have "fst (getWifiNetidBySid (Some ''w2'') net_sample) = Some (''radio0.network2'', ''radio0'')" by code_simp
    then show ?thesis by (simp add: prod_eq_iff)
  qed
  have n: "map_option s_name (fst (get_section ''wireless'' (Some ''w2'') net_sample)) = Some ''w2''" by code_simp
  have "list_all is_word ''radio0''" by code_simp
  from wifi_netid_round_trip [OF net_sample_wf g _ this] n show ?thesis by auto
qed

section \<open>Renaming a network\<close>

definition add_named :: "string \<Rightarrow> string \<Rightarrow> string \<Rightarrow> uci \<Rightarrow> uci" where
  "add_named conf ty n st = st\<lparr>creates := oset2 conf n \<lparr>s_type = ty, s_name = n, s_create = Some n, s_anonymous = False,
     s_index = 1000 + newidx st, s_opts = []\<rparr> (creates st), newidx := newidx st + 1\<rparr>"

lemma uci_add_named: "n \<noteq> [] \<Longrightarrow> uci_add conf ty (Some n) st = Ret (n, add_named conf ty n st)"
  by (simp add: uci_add_def add_named_def jbind_def)

lemma iface_name_nonempty: "iface_name_ok n \<Longrightarrow> n \<noteq> []"
  using rmatch_plain_end [OF repeats_plus, of is_word n] by (auto simp: iface_name_ok_def)

lemma view_add_named: "conf \<noteq> c \<Longrightarrow> conf_view c (add_named conf ty n st) = conf_view c st"
  by (simp add: add_named_def conf_view_def)

lemma view_set_where: "conf \<noteq> c \<Longrightarrow> conf_view c (set_where conf ty opt old new st) = conf_view c st"
  unfolding set_where_def by (rule view_fold) (simp add: view_set)

lemma view_rename_ifaces: "c \<noteq> ''wireless'' \<Longrightarrow> conf_view c (fold (rename_in_iface old new) ss st) = conf_view c st"
  by (rule view_fold) (simp add: rename_in_iface_def Let_def view_set)

lemma view_rename_references:
  "c \<noteq> ''network'' \<Longrightarrow> c \<noteq> ''luci'' \<Longrightarrow> c \<noteq> ''wireless'' \<Longrightarrow> conf_view c (rename_references_net old new st) = conf_view c st"
  by (simp add: rename_references_net_def Let_def view_set_where view_rename_ifaces)

lemma view_copy_options: "conf \<noteq> c \<Longrightarrow> conf_view c (copy_options conf sid m st) = conf_view c st"
  unfolding copy_options_def by (rule view_fold) (auto simp: view_set split: prod.splits)

text \<open>When the names are acceptable, the interface is added, its options are copied, references follow and the old one
  goes; otherwise nothing but the cache of merged sections changes.\<close>

lemma renameNetwork_cases:
  assumes "renameNetwork old newName st = Ret (b, st')"
  obtains (refused) "\<not> b" "st' = st"
    | (exists1) "\<not> b" "st' = snd (get_section ''network'' newName st)"
    | (missing) "\<not> b" "st' = snd (get_section ''network'' (Some old) (snd (get_section ''network'' newName st)))"
    | (renamed) new s where b "newName = Some new" "iface_name_ok new"
        "fst (get_section ''network'' (Some old) (snd (get_section ''network'' newName st))) = Some s"
        "st' = uci_remove ''network'' old (rename_references_net old new (copy_options ''network'' new (s_opts s)
           (add_named ''network'' ''interface'' new (snd (get_section ''network'' (Some old) (snd (get_section ''network'' newName st)))))))"
proof (cases "newName \<noteq> None \<and> iface_name_ok (the newName)")
  case False
  then show ?thesis using assms refused by (cases newName) (auto simp: renameNetwork_def)
next
  case True
  then obtain new where n: "newName = Some new" "iface_name_ok new" by auto
  obtain r1 st1 where 1: "get_section ''network'' newName st = (r1, st1)" by fastforce
  obtain r2 st2 where 2: "get_section ''network'' (Some old) st1 = (r2, st2)" by fastforce
  show ?thesis
  proof (cases "r1 = None \<and> r2 \<noteq> None \<and> s_type (the r2) = ''interface''")
    case True
    then obtain s where s: "r1 = None" "r2 = Some s" "s_type s = ''interface''" by auto
    show ?thesis
      using assms 1 2 n s by (intro renamed [of new s]) (simp_all add: renameNetwork_def uci_add_named iface_name_nonempty jbind_def Let_def)
  next
    case False
    then show ?thesis using assms 1 2 n exists1 missing
      by (cases r1; cases r2) (simp_all add: renameNetwork_def split: if_splits)
  qed
qed

lemma view_renameNetwork:
  assumes "renameNetwork old newName st = Ret (b, st')" "c \<noteq> ''network''" "c \<noteq> ''luci''" "c \<noteq> ''wireless''"
  shows "conf_view c st' = conf_view c st"
  using assms(2-)
  by (cases rule: renameNetwork_cases [OF assms(1)])
    (simp_all add: view_ops view_rename_references view_copy_options view_add_named)

text \<open>C39. Renaming a network never touches the DHCP configuration nor the firewall, although DHCP sections and zones name
  the network and deleting it removes those references: they keep the old name, which no interface bears any more.\<close>

theorem renameNetwork_leaves_references:
  assumes "renameNetwork old newName st = Ret (b, st')"
  shows "uci_sections ''dhcp'' ty st' = uci_sections ''dhcp'' ty st \<and> uci_sections ''firewall'' ty st' = uci_sections ''firewall'' ty st"
  using view_sections [OF view_renameNetwork [OF assms]] by simp

definition net_renamed :: uci where
  "net_renamed = uci_remove ''network'' ''lan'' (rename_references_net ''lan'' ''home''
     (copy_options ''network'' ''home'' [(''proto'', UStr ''static'')] (add_named ''network'' ''interface'' ''home'' net_sample)))"

theorem renameNetwork_leaves_references_witness:
  "uci_sections ''dhcp'' None net_renamed = [sample_section ''dhcp'' ''d1'' 0 [(''interface'', UStr ''lan'')]] \<and>
   uci_get ''network'' (Some ''u1'') ''in'' net_renamed = Some (UStr ''lan'') \<and>
   uci_get ''network'' (Some ''r1'') ''interface'' net_renamed = Some (UStr ''home'') \<and>
   fst (get_section ''network'' (Some ''lan'') net_renamed) = None"
proof -
  let ?lan = "sample_section ''interface'' ''lan'' 0 [(''proto'', UStr ''static'')]"
  have ok: "iface_name_ok ''home''" by code_simp
  have p: "plain_sid ''home''" "plain_sid ''lan''" by (simp_all add: plain_sid_def)
  have 1: "get_section ''network'' (Some ''home'') net_sample = (None, net_sample)"
    by (simp add: get_section_def p) (simp add: net_sample_def oget2_def oget_def)
  have 2: "get_section ''network'' (Some ''lan'') net_sample = (Some ?lan, net_sample)"
    by (simp add: get_section_def p) (simp add: net_sample_def oget2_def oget_def merged_section_def oset_def sample_section_def Let_def)
  have "renameNetwork ''lan'' (Some ''home'') net_sample = Ret (True, net_renamed)"
    using ok by (simp add: renameNetwork_def 1 2 uci_add_named jbind_def Let_def net_renamed_def) (simp add: sample_section_def)
  from renameNetwork_leaves_references [OF this, of None]
  have "uci_sections ''dhcp'' None net_renamed = uci_sections ''dhcp'' None net_sample" by simp
  moreover have "uci_sections ''dhcp'' None net_sample = [sample_section ''dhcp'' ''d1'' 0 [(''interface'', UStr ''lan'')]]" by code_simp
  moreover have "uci_get ''network'' (Some ''u1'') ''in'' net_renamed = Some (UStr ''lan'')" by code_simp
  moreover have "uci_get ''network'' (Some ''r1'') ''interface'' net_renamed = Some (UStr ''home'')" by code_simp
  moreover have "fst (get_section ''network'' (Some ''lan'') net_renamed) = None" by code_simp
  ultimately show ?thesis by simp
qed

end
