(* ===== verification/Opkg.thy ===== *)
theory Opkg
  imports JsNumber Regex
begin

text \<open>
  The package manager view \<open>opkg.js\<close>: parsing package lists, comparing versions and resolving dependencies.

  Package objects are kept in a heap, since the lists by name and by provided name share them.  The elements the view
  renders are reduced to what they tell: the status of each package and the nesting of the dependencies.
\<close>

section \<open>Package lists\<close>

datatype oval = OStr string | OList "string list" | ONum jsnum | ODate jsnum | OTrue

type_synonym opkg = "oval jsobj"

record pkg_dest =
  d_pkgs :: "nat jsobj"
  d_providers :: "nat list jsobj"

record parse_state =
  ps_heap :: "opkg list"
  ps_dest :: pkg_dest
  ps_pkg :: "nat option"
  ps_kv :: "(string \<times> string) option"

definition ltrim :: "string \<Rightarrow> string" where
  "ltrim s = dropWhile is_space s"

definition rtrim :: "string \<Rightarrow> string" where
  "rtrim s = rev (dropWhile is_space (rev s))"

text \<open>\<open>val.split(/\s*,\s*/)\<close>: space next to a comma goes, at the ends of the text it stays.\<close>

definition split_commas :: "string \<Rightarrow> string list" where
  "split_commas s =
     (case split_on CHR '','' s of
        x # y # ys \<Rightarrow> rtrim x # map trim (butlast (y # ys)) @ [ltrim (last (y # ys))]
      | xs \<Rightarrow> xs)"

definition nth_opt :: "'a list \<Rightarrow> nat \<Rightarrow> 'a option" where
  "nth_opt xs n = (if n < length xs then Some (xs ! n) else None)"

text \<open>\<open>pkg[key] = v\<close>, which throws while there is no package.\<close>

definition set_prop :: "string \<Rightarrow> oval \<Rightarrow> parse_state \<Rightarrow> parse_state jsret" where
  "set_prop k v st =
     (case ps_pkg st of
        None \<Rightarrow> Throw ''TypeError''
      | Some p \<Rightarrow> Ret (st\<lparr>ps_heap := (ps_heap st)[p := oset k v (ps_heap st ! p)]\<rparr>))"

definition new_package :: "string \<Rightarrow> parse_state \<Rightarrow> parse_state" where
  "new_package name st =
     st\<lparr>ps_heap := ps_heap st @ [[(''name'', OStr name)]], ps_pkg := Some (length (ps_heap st))\<rparr>"

definition set_status :: "string \<Rightarrow> parse_state \<Rightarrow> parse_state jsret" where
  "set_status v st =
     (let stat = split_space v []; mode = nth_opt stat 1; inst = nth_opt stat 2
      in jbind (if mode = Some ''user'' \<or> mode = Some ''hold'' then set_prop (the mode) OTrue st else Ret st)
           (\<lambda>st1. if inst = Some ''installed'' then set_prop ''installed'' OTrue st1 else Ret st1))"

definition times_1000 :: "jsnum \<Rightarrow> jsnum" where
  "times_1000 n = (case n of Fin q \<Rightarrow> Fin (q * 1000) | _ \<Rightarrow> n)"

text \<open>The switch over the key of a complete entry.  A date is the number of milliseconds it was made of.\<close>

definition store_entry :: "string \<Rightarrow> string \<Rightarrow> parse_state \<Rightarrow> parse_state jsret" where
  "store_entry key v st =
     (if key = ''package'' then Ret (new_package v st)
      else if key = ''depends'' \<or> key = ''provides'' then
        (let l = split_commas v
         in if length l \<noteq> 1 \<or> l ! 0 \<noteq> [] then set_prop key (OList l) st else Ret st)
      else if key = ''installed-time'' then set_prop ''installtime'' (ODate (times_1000 (to_number v))) st
      else if key = ''installed-size'' then set_prop ''installsize'' (ONum (to_number v)) st
      else if key = ''status'' then set_status v st
      else if key = ''essential'' then (if v = ''yes'' then set_prop ''essential'' OTrue st else Ret st)
      else if key = ''size'' then set_prop ''size'' (ONum (to_number v)) st
      else if key \<in> {''architecture'', ''auto-installed'', ''filename'', ''sha256sum'', ''section''} then Ret st
      else set_prop key (OStr v) st)"

definition pkg_name :: "opkg \<Rightarrow> string" where
  "pkg_name pkg = (case oget pkg ''name'' of Some (OStr s) \<Rightarrow> s | _ \<Rightarrow> [])"

definition pkg_list :: "string \<Rightarrow> opkg \<Rightarrow> string list" where
  "pkg_list k pkg = (case oget pkg k of Some (OList l) \<Rightarrow> l | _ \<Rightarrow> [])"

definition add_provider :: "nat \<Rightarrow> string \<Rightarrow> nat list jsobj \<Rightarrow> nat list jsobj" where
  "add_provider p name m = oset name ((case oget m name of Some l \<Rightarrow> l | None \<Rightarrow> []) @ [p]) m"

definition store_package_entry :: "nat \<Rightarrow> opkg \<Rightarrow> pkg_dest \<Rightarrow> pkg_dest" where
  "store_package_entry p pkg d =
     (let name = pkg_name pkg;
          provides = (if oget (d_providers d) name = None then [name] else []) @ pkg_list ''provides'' pkg
      in d\<lparr>d_pkgs := oset name p (d_pkgs d), d_providers := fold (add_provider p) provides (d_providers d)\<rparr>)"

text \<open>\<open>/^([\w-]+)\s*:(.+)$/\<close> on a trimmed line\<close>

definition header_line :: "string \<Rightarrow> (string \<times> string) option" where
  "header_line s =
     (let key = takeWhile (\<lambda>c. is_word c \<or> c = CHR ''-'') s; rest = dropWhile is_space (drop (length key) s)
      in case rest of
           c # v \<Rightarrow> if key \<noteq> [] \<and> c = CHR '':'' \<and> v \<noteq> [] \<and> list_all (\<lambda>x. code x \<noteq> 13) v
                      then Some (map to_lower key, trim v) else None
         | [] \<Rightarrow> None)"

text \<open>\<open>/^\s(.*)$/\<close> on a line\<close>

definition is_continuation :: "string \<Rightarrow> bool" where
  "is_continuation l = (case l of c # s \<Rightarrow> is_space c \<and> list_all (\<lambda>x. code x \<noteq> 13) s | [] \<Rightarrow> False)"

definition parse_line :: "string \<Rightarrow> parse_state \<Rightarrow> parse_state jsret" where
  "parse_line l st =
     (if is_continuation l then
        Ret (case (ps_pkg st, ps_kv st) of
               (Some _, Some (k, v)) \<Rightarrow> st\<lparr>ps_kv := Some (k, v @ [char_of (10 :: nat)] @ trim (tl l))\<rparr>
             | _ \<Rightarrow> st)
      else
        jbind (case ps_kv st of
                 Some (k, v) \<Rightarrow> jbind (store_entry k v st) (\<lambda>st1. Ret (st1\<lparr>ps_kv := None\<rparr>))
               | None \<Rightarrow> Ret st)
          (\<lambda>st1. Ret (case header_line (trim l) of
                        Some kv \<Rightarrow> st1\<lparr>ps_kv := Some kv\<rparr>
                      | None \<Rightarrow>
                          (case ps_pkg st1 of
                             Some p \<Rightarrow> st1\<lparr>ps_dest := store_package_entry p (ps_heap st1 ! p) (ps_dest st1)\<rparr>
                           | None \<Rightarrow> st1))))"

text \<open>Only lines that end in a line feed are read.\<close>

definition parseList :: "string \<Rightarrow> opkg list \<Rightarrow> pkg_dest \<Rightarrow> parse_state jsret" where
  "parseList s h d =
     jfold parse_line (butlast (split_on (char_of (10 :: nat)) s)) \<lparr>ps_heap = h, ps_dest = d, ps_pkg = None, ps_kv = None\<rparr>"

section \<open>Versions\<close>

text \<open>\<open>orderOf(s.charAt(0))\<close>\<close>

definition orderOf :: "string \<Rightarrow> int" where
  "orderOf s =
     (case s of
        [] \<Rightarrow> 0
      | c # _ \<Rightarrow>
          if c = CHR ''~'' then -1
          else if is_digit c then 0
          else if is_lower c \<or> is_upper c then int (code c)
          else int (code c) + 256)"

definition digit_first :: "string \<Rightarrow> bool" where
  "digit_first s = (case s of [] \<Rightarrow> False | c # _ \<Rightarrow> is_digit c)"

definition text_first :: "string \<Rightarrow> bool" where
  "text_first s = (case s of [] \<Rightarrow> False | c # _ \<Rightarrow> \<not> is_digit c)"

text \<open>The loop over the text before a number, on what is left of both versions.\<close>

function compare_text :: "string \<Rightarrow> string \<Rightarrow> int + (string \<times> string)" where
  "compare_text v r =
     (if text_first v \<or> text_first r
      then (if orderOf v \<noteq> orderOf r then Inl (orderOf v - orderOf r) else compare_text (tl v) (tl r))
      else Inr (v, r))"
  by pat_completeness auto
termination
  by (relation "measure (\<lambda>(v, r). length v + length r)") (auto simp: text_first_def split: list.splits)

declare compare_text.simps [simp del]

text \<open>The loop over the common digits.\<close>

fun compare_digits :: "string \<Rightarrow> string \<Rightarrow> int \<Rightarrow> string \<times> string \<times> int" where
  "compare_digits (a # v) (b # r) first_diff =
     (if is_digit a \<and> is_digit b
      then compare_digits v r (if first_diff \<noteq> 0 then first_diff else int (code a) - int (code b))
      else (a # v, b # r, first_diff))"
| "compare_digits v r first_diff = (v, r, first_diff)"

definition skip_zeros :: "string \<Rightarrow> string" where
  "skip_zeros s = dropWhile (\<lambda>c. c = CHR ''0'') s"

text \<open>One round of the outer loop: a result, or what is left of both.\<close>

definition compare_round :: "string \<Rightarrow> string \<Rightarrow> int + (string \<times> string)" where
  "compare_round v r =
     (case compare_text v r of
        Inl d \<Rightarrow> Inl d
      | Inr (v1, r1) \<Rightarrow>
          (let (v2, r2, d) = compare_digits (skip_zeros v1) (skip_zeros r1) 0
           in if digit_first v2 then Inl 1
              else if digit_first r2 then Inl (-1)
              else if d \<noteq> 0 then Inl d else Inr (v2, r2)))"

lemma compare_text_shorter:
  "compare_text v r = Inr (v1, r1) \<Longrightarrow> length v1 \<le> length v \<and> length r1 \<le> length r \<and> \<not> text_first v1 \<and> \<not> text_first r1"
proof (induction v r rule: compare_text.induct)
  case (1 v r)
  show ?case
  proof (cases "text_first v \<or> text_first r")
    case True
    then have "orderOf v = orderOf r" "compare_text (tl v) (tl r) = Inr (v1, r1)"
      using "1.prems" by (simp_all add: compare_text.simps [of v r] split: if_splits)
    then show ?thesis using "1.IH" True by fastforce
  next
    case False
    then show ?thesis using "1.prems" by (simp add: compare_text.simps [of v r])
  qed
qed

lemma compare_digits_shorter:
  "compare_digits v r d = (v1, r1, e) \<Longrightarrow> length v1 \<le> length v \<and> length r1 \<le> length r \<and>
     (digit_first v \<or> digit_first r \<longrightarrow> digit_first v1 \<or> digit_first r1 \<or> length v1 + length r1 < length v + length r)"
proof (induction v r d rule: compare_digits.induct)
  case (1 a v b r d)
  show ?case
  proof (cases "is_digit a \<and> is_digit b")
    case True
    then show ?thesis using 1 by fastforce
  next
    case False
    then show ?thesis using "1.prems" by (auto simp: digit_first_def)
  qed
qed (auto simp: digit_first_def)

lemma skip_zeros_shorter: "length (skip_zeros v) \<le> length v"
  by (simp add: skip_zeros_def length_dropWhile_le)

lemma skip_zeros_digit: "digit_first v \<Longrightarrow> length (skip_zeros v) = length v \<Longrightarrow> digit_first (skip_zeros v)"
proof (cases v)
  case (Cons c s)
  assume "digit_first v" "length (skip_zeros v) = length v"
  moreover have "length (dropWhile (\<lambda>c. c = CHR ''0'') s) < length v" using length_dropWhile_le [of _ s] by (simp add: Cons less_Suc_eq_le)
  ultimately show ?thesis by (auto simp: skip_zeros_def Cons split: if_splits)
qed (simp add: digit_first_def)

lemma compare_round_shorter:
  assumes "compare_round v r = Inr (v2, r2)" "v \<noteq> [] \<or> r \<noteq> []"
  shows "length v2 + length r2 < length v + length r"
proof -
  obtain v1 r1 where 1: "compare_text v r = Inr (v1, r1)"
    using assms(1) by (auto simp: compare_round_def split: sum.splits)
  obtain d where 2: "compare_digits (skip_zeros v1) (skip_zeros r1) 0 = (v2, r2, d)" "\<not> digit_first v2" "\<not> digit_first r2"
    using assms(1) 1 by (auto simp: compare_round_def split: prod.splits if_splits)
  note l1 = compare_text_shorter [OF 1] and l2 = skip_zeros_shorter [of v1] skip_zeros_shorter [of r1]
  note l3 = compare_digits_shorter [OF 2(1)]
  show ?thesis
  proof (rule ccontr)
    assume "\<not> ?thesis"
    then have e: "length (skip_zeros v1) = length v1" "length (skip_zeros r1) = length r1" "length v1 = length v" "length r1 = length r"
      "length v2 + length r2 = length (skip_zeros v1) + length (skip_zeros r1)"
      using l1 l2 l3 by linarith+
    have "v1 \<noteq> [] \<or> r1 \<noteq> []" using assms(2) e(3,4) by auto
    then have "digit_first v1 \<or> digit_first r1"
      using l1 by (auto simp: text_first_def digit_first_def split: list.splits)
    then have "digit_first (skip_zeros v1) \<or> digit_first (skip_zeros r1)" using skip_zeros_digit e(1,2) by blast
    then show False using l3 2(2,3) e(5) by simp
  qed
qed

function compare_loop :: "string \<Rightarrow> string \<Rightarrow> int" where
  "compare_loop v r =
     (if v = [] \<and> r = [] then 0
      else (case compare_round v r of Inl d \<Rightarrow> d | Inr (v1, r1) \<Rightarrow> compare_loop v1 r1))"
  by pat_completeness auto
termination
  by (relation "measure (\<lambda>(v, r). length v + length r)") (auto dest: compare_round_shorter)

declare compare_loop.simps [simp del]

definition compareVersion :: "string option \<Rightarrow> string option \<Rightarrow> int" where
  "compareVersion ver ref =
     (let v = (case ver of Some s \<Rightarrow> s | None \<Rightarrow> []); r = (case ref of Some s \<Rightarrow> s | None \<Rightarrow> [])
      in if v = r then 0 else compare_loop v r)"

definition versionSatisfied :: "string option \<Rightarrow> string option \<Rightarrow> string \<Rightarrow> bool" where
  "versionSatisfied ver ref vop =
     (let r = compareVersion ver ref
      in if vop = ''<'' \<or> vop = ''<='' then r \<le> 0
         else if vop = ''>'' \<or> vop = ''>='' then 0 \<le> r
         else if vop = ''<<'' then r < 0
         else if vop = ''>>'' then 0 < r
         else if vop = ''='' then r = 0 else False)"

section \<open>Dependencies\<close>

record opkg_db =
  o_heap :: "opkg list"
  o_available :: pkg_dest
  o_installed :: pkg_dest

datatype dep_error =
    InstalledIncompatible string string string string
  | RepositoryIncompatible string string string string
  | DependencyMissing string

datatype dep_status = NeedsUpgrade opkg | VersionIncompatible | Installed | NotInstalled | NotAvailable

text \<open>\<open>info.seen\<close> is an array used as a dictionary: of a recorded dependency its packages and its version condition.\<close>

record dep_info =
  i_seen :: "(string list \<times> (string \<times> string) option) jsobj"
  i_errors :: "dep_error list"
  i_install :: "opkg list"

definition pkg_version :: "opkg \<Rightarrow> string option" where
  "pkg_version pkg = (case oget pkg ''version'' of Some (OStr v) \<Rightarrow> Some v | _ \<Rightarrow> None)"

definition find_replacement :: "opkg_db \<Rightarrow> string \<Rightarrow> string \<times> string \<Rightarrow> opkg option" where
  "find_replacement db name cond =
     find (\<lambda>p. versionSatisfied (pkg_version p) (Some (snd cond)) (fst cond))
       (map (nth (o_heap db)) (case oget (d_providers (o_available db)) name of Some l \<Rightarrow> l | None \<Rightarrow> []))"

text \<open>\<open>truncateVersion\<close> of a package without a version throws.\<close>

definition with_version :: "opkg \<Rightarrow> (string \<Rightarrow> dep_error) \<Rightarrow> dep_info \<Rightarrow> (dep_status \<times> dep_info) jsret" where
  "with_version pkg err info =
     (case pkg_version pkg of
        None \<Rightarrow> Throw ''TypeError''
      | Some v \<Rightarrow> Ret (VersionIncompatible, info\<lparr>i_errors := i_errors info @ [err v]\<rparr>))"

definition satisfied_by :: "opkg \<Rightarrow> (string \<times> string) option \<Rightarrow> bool" where
  "satisfied_by pkg cond =
     (case cond of None \<Rightarrow> True | Some (vop, ver) \<Rightarrow> versionSatisfied (pkg_version pkg) (Some ver) vop)"

definition pkgStatus ::
  "opkg_db \<Rightarrow> opkg \<Rightarrow> (string \<times> string) option \<Rightarrow> dep_info \<Rightarrow> (dep_status \<times> dep_info) jsret" where
  "pkgStatus db pkg cond info =
     (if oget pkg ''installed'' \<noteq> None then
        (if satisfied_by pkg cond then Ret (Installed, info)
         else (case find_replacement db (pkg_name pkg) (the cond) of
                 Some repl \<Rightarrow> Ret (NeedsUpgrade repl, info\<lparr>i_install := i_install info @ [repl]\<rparr>)
               | None \<Rightarrow> with_version pkg (InstalledIncompatible (pkg_name pkg) (fst (the cond)) (snd (the cond))) info))
      else if oget pkg ''missing'' = None then
        (if satisfied_by pkg cond then Ret (NotInstalled, info\<lparr>i_install := i_install info @ [pkg]\<rparr>)
         else with_version pkg (RepositoryIncompatible (pkg_name pkg) (fst (the cond)) (snd (the cond))) info)
      else Ret (NotAvailable, info\<lparr>i_errors := i_errors info @ [DependencyMissing (pkg_name pkg)]\<rparr>))"

text \<open>\<open>/^(.+?)\s+\((<=|>=|<<|>>|<|>|=)(.+?)\)/\<close>: the shortest name before space and a condition in parentheses.\<close>

definition line_break :: "char \<Rightarrow> bool" where
  "line_break c \<longleftrightarrow> code c = 10 \<or> code c = 13"

definition until_paren :: "string \<Rightarrow> string option" where
  "until_paren s =
     (case s of
        [] \<Rightarrow> None
      | c # t \<Rightarrow> (let u = takeWhile (\<lambda>x. x \<noteq> CHR '')'') t
                in if length u = length t \<or> list_ex line_break (c # u) then None else Some (c # u)))"

fun match_op :: "string list \<Rightarrow> string \<Rightarrow> (string \<times> string) option" where
  "match_op [] s = None"
| "match_op (p # ps) s =
     (case (if take (length p) s = p then until_paren (drop (length p) s) else None) of
        Some v \<Rightarrow> Some (p, v)
      | None \<Rightarrow> match_op ps s)"

definition match_condition :: "string \<Rightarrow> (string \<times> string) option" where
  "match_condition s =
     (case s of
        c # _ \<Rightarrow> if is_space c
                  then (case dropWhile is_space s of
                          d # t \<Rightarrow> if d = CHR ''('' then match_op [''<='', ''>='', ''<<'', ''>>'', ''<'', ''>'', ''=''] t else None
                        | [] \<Rightarrow> None)
                  else None
      | [] \<Rightarrow> None)"

fun scan_dep :: "string \<Rightarrow> string \<Rightarrow> (string \<times> string \<times> string) option" where
  "scan_dep pre [] = None"
| "scan_dep pre (c # s) =
     (case (if pre = [] then None else match_condition (c # s)) of
        Some (vop, ver) \<Rightarrow> Some (pre, vop, ver)
      | None \<Rightarrow> if line_break c then None else scan_dep (pre @ [c]) s)"

definition parse_dep :: "string \<Rightarrow> string \<times> (string \<times> string) option" where
  "parse_dep d =
     (case scan_dep [] d of
        Some (pre, vop, ver) \<Rightarrow> (trim pre, Some (trim vop, trim ver))
      | None \<Rightarrow> (trim d, None))"

text \<open>\<open>if (xs.indexOf(x) === -1) xs.push(x)\<close>\<close>

fun remdups_acc :: "'a list \<Rightarrow> 'a list \<Rightarrow> 'a list" where
  "remdups_acc acc [] = acc"
| "remdups_acc acc (x # xs) = remdups_acc (if x \<in> set acc then acc else acc @ [x]) xs"

abbreviation remdups_first :: "'a list \<Rightarrow> 'a list" where
  "remdups_first \<equiv> remdups_acc []"

definition provider_names :: "opkg_db \<Rightarrow> string \<Rightarrow> string list" where
  "provider_names db dep =
     remdups_first (map (\<lambda>p. pkg_name (o_heap db ! p))
       ((case oget (d_providers (o_installed db)) dep of Some l \<Rightarrow> l | None \<Rightarrow> []) @
        (case oget (d_providers (o_available db)) dep of Some l \<Rightarrow> l | None \<Rightarrow> [])))"

definition lookup_pkg :: "opkg_db \<Rightarrow> string \<Rightarrow> string \<Rightarrow> opkg" where
  "lookup_pkg db dep n =
     (case oget (d_pkgs (o_installed db)) n of
        Some p \<Rightarrow> o_heap db ! p
      | None \<Rightarrow> (case oget (d_pkgs (o_available db)) n of Some p \<Rightarrow> o_heap db ! p | None \<Rightarrow> [(''name'', OStr dep)]))"

datatype dep_tree = DepItem string "(string \<times> dep_status) list" "dep_tree list"

text \<open>The packages of a dependency: their states, in turn.\<close>

fun item_packages ::
  "opkg_db \<Rightarrow> (string \<times> string) option \<Rightarrow> opkg list \<Rightarrow> dep_info \<Rightarrow> ((string \<times> dep_status) list \<times> dep_info) jsret" where
  "item_packages db cond [] info = Ret ([], info)"
| "item_packages db cond (pkg # ps) info =
     jbind (pkgStatus db pkg cond info) (\<lambda>(s, info1).
     jbind (item_packages db cond ps info1) (\<lambda>(ss, info2). Ret ((pkg_name pkg, s) # ss, info2)))"

definition item_depends :: "opkg list \<Rightarrow> string list" where
  "item_depends ps = remdups_first (concat (map (pkg_list ''depends'') ps))"

text \<open>\<open>sub\<close> renders the dependencies of the item.\<close>

definition renderDependencyItem ::
  "(string list \<Rightarrow> dep_info \<Rightarrow> (dep_tree list \<times> dep_info) jsret) \<Rightarrow> opkg_db \<Rightarrow> bool \<Rightarrow> string \<Rightarrow> string list \<Rightarrow>
     (string \<times> string) option \<Rightarrow> dep_info \<Rightarrow> (dep_tree \<times> dep_info) jsret" where
  "renderDependencyItem sub db flat dep names cond info =
     (let ps = map (lookup_pkg db dep) names
      in jbind (item_packages db cond (if ps = [] then [[(''name'', OStr dep), (''missing'', OTrue)]] else ps) info) (\<lambda>(ss, info1).
         jbind (if flat then Ret ([], info1) else sub (item_depends ps) info1) (\<lambda>(ts, info2).
         Ret (DepItem dep ss ts, info2))))"

text \<open>The loop over the dependencies.  An array has more properties than those set: \<open>inherited\<close> are the names of the
  methods every array has; setting \<open>length\<close> to an object is a range error.\<close>

fun render_each ::
  "(string \<Rightarrow> bool) \<Rightarrow> (string list \<Rightarrow> dep_info \<Rightarrow> (dep_tree list \<times> dep_info) jsret) \<Rightarrow> opkg_db \<Rightarrow> bool \<Rightarrow> string list \<Rightarrow>
     dep_info \<Rightarrow> (dep_tree list \<times> dep_info) jsret" where
  "render_each inherited sub db flat [] info = Ret ([], info)"
| "render_each inherited sub db flat (d # ds) info =
     (if d = ''libc'' then render_each inherited sub db flat ds info
      else (let (dep, cond) = parse_dep d
            in if oget (i_seen info) dep \<noteq> None \<or> inherited dep then render_each inherited sub db flat ds info
               else if dep = ''length'' then Throw ''RangeError''
               else (let names = provider_names db dep
                     in jbind (renderDependencyItem sub db flat dep names cond
                                 (info\<lparr>i_seen := oset dep (names, cond) (i_seen info)\<rparr>)) (\<lambda>(t, info1).
                        jbind (render_each inherited sub db flat ds info1) (\<lambda>(ts, info2). Ret (t # ts, info2))))))"

text \<open>The nesting is bounded by fuel; \<open>Hang\<close> stands for its exhaustion.\<close>

fun renderDependencies ::
  "(string \<Rightarrow> bool) \<Rightarrow> nat \<Rightarrow> opkg_db \<Rightarrow> bool \<Rightarrow> string list \<Rightarrow> dep_info \<Rightarrow> (dep_tree list \<times> dep_info) jsret" where
  "renderDependencies inherited 0 db flat deps info = Hang"
| "renderDependencies inherited (Suc n) db flat deps info =
     render_each inherited (renderDependencies inherited n db False) db flat deps info"

end
