(* ===== verification/OpkgLaws.thy ===== *)
theory OpkgLaws
  imports Opkg
begin

text \<open>
  Laws of the package manager: the comparison of versions is the zero-padded lexicographic order of their keys and so a
  total preorder, the dependencies resolved are exactly those that can be reached, and when a package is not listed under
  its own name.
\<close>

section \<open>Keys of versions\<close>

text \<open>The order of the characters of a text part, a zero before a number, and the number.\<close>

function vkey :: "string \<Rightarrow> int list" where
  "vkey [] = []"
| "vkey (c # s) =
     (if \<not> is_digit c then orderOf [c] # vkey s
      else 0 # int (nat_of_radix 10 (takeWhile is_digit (c # s))) # vkey (dropWhile is_digit (c # s)))"
  by pat_completeness auto
termination
  by (relation "measure length") (auto simp: less_Suc_eq_le length_dropWhile_le)

text \<open>Lexicographic comparison of sequences continued by zeros.\<close>

fun zcmp :: "int list \<Rightarrow> int list \<Rightarrow> int" where
  "zcmp [] [] = 0"
| "zcmp (x # xs) [] = (if x \<noteq> 0 then sgn x else zcmp xs [])"
| "zcmp [] (y # ys) = (if y \<noteq> 0 then - sgn y else zcmp [] ys)"
| "zcmp (x # xs) (y # ys) = (if x \<noteq> y then sgn (x - y) else zcmp xs ys)"

lemma zcmp_refl [simp]: "zcmp xs xs = 0"
  by (induction xs) simp_all

lemma zcmp_swap: "zcmp ys xs = - zcmp xs ys"
  by (induction xs ys rule: zcmp.induct) (auto simp: sgn_if)

lemma zcmp_range: "zcmp xs ys \<in> {-1, 0, 1}"
  by (induction xs ys rule: zcmp.induct) (auto simp: sgn_if)

lemma zcmp_trans_nil: "zcmp xs [] \<le> 0 \<Longrightarrow> zcmp [] ys \<le> 0 \<Longrightarrow> zcmp xs ys \<le> 0"
  by (induction xs ys rule: zcmp.induct) (auto simp: sgn_if split: if_splits)

definition hd0 :: "int list \<Rightarrow> int" where
  "hd0 xs = (case xs of [] \<Rightarrow> 0 | x # _ \<Rightarrow> x)"

lemma zcmp_step: "zcmp xs ys = (if hd0 xs \<noteq> hd0 ys then sgn (hd0 xs - hd0 ys) else zcmp (tl xs) (tl ys))"
  by (cases xs; cases ys) (auto simp: hd0_def sgn_if)

lemma zcmp_trans: "zcmp xs ys \<le> 0 \<Longrightarrow> zcmp ys zs \<le> 0 \<Longrightarrow> zcmp xs zs \<le> 0"
proof (induction "length xs + length ys + length zs" arbitrary: xs ys zs rule: less_induct)
  case less
  show ?case
  proof (cases "xs = [] \<and> ys = [] \<and> zs = []")
    case False
    then have l: "length (tl xs) + length (tl ys) + length (tl zs) < length xs + length ys + length zs"
      by (cases xs; cases ys; cases zs) auto
    have "hd0 xs \<le> hd0 ys" "hd0 ys \<le> hd0 zs"
      using less.prems zcmp_step [of xs ys] zcmp_step [of ys zs] by (auto simp: sgn_if split: if_splits)
    moreover have "zcmp (tl xs) (tl zs) \<le> 0" if "hd0 xs = hd0 ys" "hd0 ys = hd0 zs"
      using less.hyps [OF l] less.prems that zcmp_step [of xs ys] zcmp_step [of ys zs] by simp
    ultimately show ?thesis using zcmp_step [of xs zs] by (auto simp: sgn_if)
  qed simp
qed

section \<open>Numbers in versions\<close>

definition lead :: "string \<Rightarrow> nat" where
  "lead s = nat_of_radix 10 (takeWhile is_digit s)"

lemma radix_foldl: "foldl (\<lambda>n c. n * 10 + digit_val c) a s = a * 10 ^ length s + nat_of_radix 10 s"
proof (induction s rule: rev_induct)
  case (snoc c s)
  then show ?case by (simp add: nat_of_radix_snoc add_mult_distrib)
qed simp

lemma radix_Cons: "nat_of_radix 10 (c # s) = digit_val c * 10 ^ length s + nat_of_radix 10 s"
  using radix_foldl [of "digit_val c" s] by (simp add: nat_of_radix_def)

lemma digit_val_less: "is_digit c \<Longrightarrow> digit_val c < 10"
  by (auto simp: digit_val_def is_digit_def)

lemma radix_less: "\<forall>c \<in> set s. is_digit c \<Longrightarrow> nat_of_radix 10 s < 10 ^ length s"
proof (induction s)
  case (Cons c s)
  then have "nat_of_radix 10 s < 10 ^ length s" "digit_val c < 10" by (simp_all add: digit_val_less)
  then have "digit_val c * 10 ^ length s + nat_of_radix 10 s < digit_val c * 10 ^ length s + 10 ^ length s" by simp
  also have "\<dots> = (digit_val c + 1) * 10 ^ length s" by (simp add: algebra_simps)
  also have "\<dots> \<le> 10 * 10 ^ length s" using \<open>digit_val c < 10\<close> by (intro mult_right_mono) auto
  finally show ?case by (simp add: radix_Cons)
qed simp

lemma lead_less: "lead s < 10 ^ length (takeWhile is_digit s)"
  unfolding lead_def by (rule radix_less) (auto dest: set_takeWhileD)

lemma digit_codes: "is_digit a \<Longrightarrow> is_digit b \<Longrightarrow> int (code a) - int (code b) = int (digit_val a) - int (digit_val b)"
  by (auto simp: digit_val_def is_digit_def)

lemma sgn_first_digit:
  fixes a b m n p :: int
  assumes "0 \<le> m" "0 \<le> n" "m < p" "n < p" "a \<noteq> b"
  shows "sgn (a * p + m - (b * p + n)) = sgn (a - b)"
proof (cases "a < b")
  case True
  then have "(a + 1) * p \<le> b * p" using assms by (intro mult_right_mono) auto
  then have "a * p + m < b * p + n" using assms by (simp add: algebra_simps)
  then show ?thesis using True by (simp add: sgn_if)
next
  case False
  then have "(b + 1) * p \<le> a * p" using assms by (intro mult_right_mono) auto
  then have "b * p + n < a * p + m" using assms by (simp add: algebra_simps)
  then show ?thesis using False assms(5) by (simp add: sgn_if)
qed

lemma compare_digits_result:
  assumes "compare_digits v r e = (v2, r2, d)"
  shows "if length (takeWhile is_digit v) = length (takeWhile is_digit r)
    then v2 = dropWhile is_digit v \<and> r2 = dropWhile is_digit r \<and>
      sgn d = (if e \<noteq> 0 then sgn e else sgn (int (lead v) - int (lead r)))
    else if length (takeWhile is_digit v) > length (takeWhile is_digit r) then digit_first v2
    else digit_first r2 \<and> \<not> digit_first v2"
  using assms
proof (induction v r e rule: compare_digits.induct)
  case (1 a v b r e)
  show ?case
  proof (cases "is_digit a \<and> is_digit b")
    case True
    let ?e = "if e \<noteq> 0 then e else int (code a) - int (code b)"
    have s: "sgn (if ?e \<noteq> 0 then ?e else int (lead v) - int (lead r)) =
        sgn (if e \<noteq> 0 then e else int (lead (a # v)) - int (lead (b # r)))"
      if l: "length (takeWhile is_digit v) = length (takeWhile is_digit r)"
    proof (cases "int (digit_val a) = int (digit_val b)")
      case True
      then show ?thesis using \<open>is_digit a \<and> is_digit b\<close> l by (simp add: digit_codes lead_def radix_Cons)
    next
      case False
      have "sgn (int (lead (a # v)) - int (lead (b # r))) = sgn (int (digit_val a) - int (digit_val b))"
        using sgn_first_digit [of "int (lead v)" "int (lead r)" "int (10 ^ length (takeWhile is_digit v))" "int (digit_val a)" "int (digit_val b)"]
          lead_less [of v] lead_less [of r] l False \<open>is_digit a \<and> is_digit b\<close>
        by (simp add: lead_def radix_Cons del: of_nat_power)
      then show ?thesis using \<open>is_digit a \<and> is_digit b\<close> False by (simp add: digit_codes)
    qed
    show ?thesis using "1.IH" [OF True] "1.prems" True s by (simp split: if_splits)
  next
    case False
    then show ?thesis using "1.prems" by (auto simp: digit_first_def lead_def)
  qed
qed (auto simp: digit_first_def lead_def split: list.splits)

section \<open>The comparison follows the keys\<close>

lemma skip_zeros_lead: "lead (skip_zeros v) = lead v" "dropWhile is_digit (skip_zeros v) = dropWhile is_digit v"
proof -
  have z: "is_digit CHR ''0''" "digit_val CHR ''0'' = 0" by code_simp+
  then show "lead (skip_zeros v) = lead v" by (induction v) (auto simp: skip_zeros_def lead_def radix_Cons)
  show "dropWhile is_digit (skip_zeros v) = dropWhile is_digit v" using z by (induction v) (auto simp: skip_zeros_def)
qed

lemma lead_at_least:
  assumes "digit_first v" "hd v \<noteq> CHR ''0''"
  shows "10 ^ (length (takeWhile is_digit v) - 1) \<le> lead v"
proof -
  obtain c s where v: "v = c # s" "is_digit c" using assms(1) by (cases v) (auto simp: digit_first_def)
  have "code c \<noteq> code CHR ''0''" using assms(2) v by (metis char_of_code list.sel(1))
  then have "1 \<le> digit_val c" using v(2) by (auto simp: digit_val_def is_digit_def code_def)
  then have "1 * 10 ^ length (takeWhile is_digit s) \<le> digit_val c * 10 ^ length (takeWhile is_digit s)" by (rule mult_right_mono) simp
  then have "10 ^ length (takeWhile is_digit s) \<le> digit_val c * 10 ^ length (takeWhile is_digit s) + nat_of_radix 10 (takeWhile is_digit s)"
    by linarith
  then show ?thesis using v by (simp add: lead_def radix_Cons)
qed

lemma skip_zeros_hd: "skip_zeros v \<noteq> [] \<Longrightarrow> hd (skip_zeros v) \<noteq> CHR ''0''"
  unfolding skip_zeros_def by (rule hd_dropWhile)

lemma longer_is_greater:
  assumes "length (takeWhile is_digit (skip_zeros r)) < length (takeWhile is_digit (skip_zeros v))"
  shows "lead r < lead v"
proof -
  let ?v = "skip_zeros v" and ?r = "skip_zeros r"
  have d: "digit_first ?v" using assms by (cases ?v) (auto simp: digit_first_def split: if_splits)
  then have "hd ?v \<noteq> CHR ''0''" by (intro skip_zeros_hd) (auto simp: digit_first_def)
  have "lead ?r < 10 ^ length (takeWhile is_digit ?r)" by (rule lead_less)
  also have "\<dots> \<le> 10 ^ (length (takeWhile is_digit ?v) - 1)" using assms by (intro power_increasing) auto
  also have "\<dots> \<le> lead ?v" by (rule lead_at_least [OF d \<open>hd ?v \<noteq> CHR ''0''\<close>])
  finally show ?thesis by (simp add: skip_zeros_lead)
qed

lemma order_text: "text_first v \<Longrightarrow> orderOf v \<noteq> 0" "\<not> text_first v \<Longrightarrow> orderOf v = 0"
  by (auto simp: text_first_def orderOf_def is_lower_def is_upper_def is_digit_def code_def split: list.splits if_splits)

lemma hd0_vkey: "hd0 (vkey v) = orderOf v"
  by (cases v) (auto simp: hd0_def orderOf_def is_digit_def code_def)

lemma vkey_tl_text: "text_first v \<Longrightarrow> tl (vkey v) = vkey (tl v)"
  by (cases v) (simp_all add: text_first_def)

text \<open>A number part: its key up to trailing zeros.\<close>

lemma zcmp_numbers:
  assumes "\<not> text_first v" "\<not> text_first r"
  shows "zcmp (vkey v) (vkey r) = (if lead v \<noteq> lead r then sgn (int (lead v) - int (lead r))
    else zcmp (vkey (dropWhile is_digit v)) (vkey (dropWhile is_digit r)))"
proof -
  have k: "hd0 (tl (vkey v)) = int (lead v) \<and> tl (tl (vkey v)) = vkey (dropWhile is_digit v)" if "\<not> text_first v" for v
    using that by (cases v) (auto simp: text_first_def hd0_def lead_def)
  have "zcmp (vkey v) (vkey r) = zcmp (tl (vkey v)) (tl (vkey r))"
    using assms order_text(2) by (subst zcmp_step) (simp add: hd0_vkey)
  also have "\<dots> = (if lead v \<noteq> lead r then sgn (int (lead v) - int (lead r))
    else zcmp (vkey (dropWhile is_digit v)) (vkey (dropWhile is_digit r)))"
    using k [OF assms(1)] k [OF assms(2)] by (subst zcmp_step) simp
  finally show ?thesis .
qed

lemma compare_text_key:
  "case compare_text v r of Inl d \<Rightarrow> zcmp (vkey v) (vkey r) = sgn d | Inr (v1, r1) \<Rightarrow> zcmp (vkey v) (vkey r) = zcmp (vkey v1) (vkey r1)"
proof (induction v r rule: compare_text.induct)
  case (1 v r)
  show ?case
  proof (cases "text_first v \<or> text_first r")
    case True
    show ?thesis
    proof (cases "orderOf v = orderOf r")
      case False
      then show ?thesis using True zcmp_step [of "vkey v" "vkey r"] by (simp add: compare_text.simps [of v r] hd0_vkey)
    next
      case eq: True
      then have "text_first v" "text_first r" using True order_text by metis+
      then have "zcmp (vkey v) (vkey r) = zcmp (vkey (tl v)) (vkey (tl r))"
        using eq by (subst zcmp_step) (simp add: hd0_vkey vkey_tl_text)
      moreover have "compare_text v r = compare_text (tl v) (tl r)" using eq True by (simp add: compare_text.simps [of v r])
      ultimately show ?thesis using "1.IH" [OF True] eq by (auto split: sum.splits)
    qed
  next
    case False
    then show ?thesis by (simp add: compare_text.simps [of v r])
  qed
qed

lemma compare_round_key:
  "case compare_round v r of Inl d \<Rightarrow> zcmp (vkey v) (vkey r) = sgn d | Inr (v1, r1) \<Rightarrow> zcmp (vkey v) (vkey r) = zcmp (vkey v1) (vkey r1)"
proof (cases "compare_text v r")
  case (Inl d)
  then show ?thesis using compare_text_key [of v r] by (simp add: compare_round_def)
next
  case (Inr p)
  obtain v1 r1 where p: "p = (v1, r1)" by fastforce
  obtain v2 r2 d where d: "compare_digits (skip_zeros v1) (skip_zeros r1) 0 = (v2, r2, d)" by (metis prod_cases3)
  have z: "zcmp (vkey v) (vkey r) = (if lead v1 \<noteq> lead r1 then sgn (int (lead v1) - int (lead r1))
      else zcmp (vkey (dropWhile is_digit v1)) (vkey (dropWhile is_digit r1)))"
    using compare_text_key [of v r] compare_text_shorter [of v r v1 r1] zcmp_numbers [of v1 r1] Inr p by simp
  note res = compare_digits_result [OF d, unfolded skip_zeros_lead]
  have e: "compare_round v r = (if digit_first v2 then Inl 1 else if digit_first r2 then Inl (-1) else if d \<noteq> 0 then Inl d else Inr (v2, r2))"
    by (simp add: compare_round_def Inr p d)
  let ?n = "length (takeWhile is_digit (skip_zeros v1))" and ?m = "length (takeWhile is_digit (skip_zeros r1))"
  consider "?n = ?m" | "?n > ?m" | "?n < ?m" by linarith
  then show ?thesis
  proof cases
    case 1
    have nd: "\<not> digit_first (dropWhile is_digit s)" for s by (induction s) (auto simp: digit_first_def)
    from 1 res have "v2 = dropWhile is_digit v1" "r2 = dropWhile is_digit r1" "sgn d = sgn (int (lead v1) - int (lead r1))" by simp_all
    then show ?thesis using nd by (auto simp: e z sgn_if split: if_splits)
  next
    case 2
    then show ?thesis using res longer_is_greater [of r1 v1] by (simp add: e z)
  next
    case 3
    then show ?thesis using res longer_is_greater [of v1 r1] by (simp add: e z)
  qed
qed

lemma compare_loop_key: "sgn (compare_loop v r) = zcmp (vkey v) (vkey r)"
proof (induction v r rule: compare_loop.induct)
  case (1 v r)
  show ?case
  proof (cases "v = [] \<and> r = []")
    case False
    then show ?thesis using compare_round_key [of v r] "1.IH" by (auto simp: compare_loop.simps [of v r] split: sum.splits prod.splits)
  qed (simp add: compare_loop.simps [of "[]" "[]"])
qed

definition version_text :: "string option \<Rightarrow> string" where
  "version_text v = (case v of Some s \<Rightarrow> s | None \<Rightarrow> [])"

lemma compareVersion_key: "sgn (compareVersion a b) = zcmp (vkey (version_text a)) (vkey (version_text b))"
  by (simp add: compareVersion_def version_text_def [symmetric] Let_def compare_loop_key)

text \<open>C13. \<open>compareVersion\<close> compares keys: the order of the characters of each text part, where a tilde sorts
  before the end, and the value of each number, compared place by place with the shorter key continued by zeros.  It is
  therefore a total preorder: reflexive, antisymmetric up to equal keys and transitive.\<close>

theorem compareVersion_is_key_order:
  "sgn (compareVersion a b) = zcmp (vkey (version_text a)) (vkey (version_text b)) \<and>
   compareVersion a a = 0 \<and> sgn (compareVersion b a) = - sgn (compareVersion a b) \<and>
   (compareVersion b c \<le> 0 \<longrightarrow> compareVersion a b \<le> 0 \<longrightarrow> compareVersion a c \<le> 0)"
proof -
  have s: "compareVersion x y \<le> 0 \<longleftrightarrow> zcmp (vkey (version_text x)) (vkey (version_text y)) \<le> 0" for x y
    unfolding compareVersion_key [symmetric] by (simp add: sgn_if)
  show ?thesis
    using zcmp_trans [of "vkey (version_text a)" "vkey (version_text b)" "vkey (version_text c)"]
      zcmp_swap [of "vkey (version_text a)" "vkey (version_text b)"]
    by (simp add: s compareVersion_key) (simp add: compareVersion_def Let_def)
qed

theorem compareVersion_is_key_order_witness:
  "compareVersion (Some ''1.2~rc1'') (Some ''1.2'') \<le> 0 \<and> compareVersion (Some ''1.2'') (Some ''1.10'') \<le> 0 \<and>
   compareVersion (Some ''1.2~rc1'') (Some ''1.10'') \<le> 0"
proof -
  have "compareVersion (Some ''1.2~rc1'') (Some ''1.2'') \<le> 0" "compareVersion (Some ''1.2'') (Some ''1.10'') \<le> 0" by code_simp+
  with compareVersion_is_key_order [of "Some ''1.2~rc1''" "Some ''1.2''" "Some ''1.10''"] show ?thesis by blast
qed

section \<open>Dependencies that can be reached\<close>

text \<open>The dependencies a list names, but for the C library and names the array of seen ones takes for its methods.\<close>

definition dep_names :: "(string \<Rightarrow> bool) \<Rightarrow> string list \<Rightarrow> string set" where
  "dep_names inherited ds = {n. \<exists>d \<in> set ds. d \<noteq> ''libc'' \<and> n = fst (parse_dep d) \<and> \<not> inherited n}"

definition providers_of :: "opkg_db \<Rightarrow> string \<Rightarrow> opkg list" where
  "providers_of db n = map (lookup_pkg db n) (provider_names db n)"

inductive reach :: "(string \<Rightarrow> bool) \<Rightarrow> opkg_db \<Rightarrow> string set \<Rightarrow> string \<Rightarrow> bool" for inherited db R where
  root: "n \<in> R \<Longrightarrow> reach inherited db R n"
| step: "reach inherited db R n \<Longrightarrow> m \<in> dep_names inherited (item_depends (providers_of db n)) \<Longrightarrow> reach inherited db R m"

lemma reach_mono: "reach inherited db R n \<Longrightarrow> R \<subseteq> S \<Longrightarrow> reach inherited db S n"
  by (induction rule: reach.induct) (auto intro: reach.intros)

lemma reach_from:
  "reach inherited db (dep_names inherited (item_depends (providers_of db k))) n \<Longrightarrow> reach inherited db R k \<Longrightarrow> reach inherited db R n"
  by (induction rule: reach.induct) (auto intro: reach.intros)

definition seen_names :: "dep_info \<Rightarrow> string set" where
  "seen_names info = set (okeys (i_seen info))"

lemma seen_iff: "oget (i_seen info) n \<noteq> None \<longleftrightarrow> n \<in> seen_names info"
  by (auto simp: seen_names_def oget_None)

lemma seen_mark: "seen_names (info\<lparr>i_seen := oset n v (i_seen info)\<rparr>) = insert n (seen_names info)"
  by (simp add: seen_names_def okeys_oset)

text \<open>The status of a package never touches what was seen, and always comes out.\<close>

lemma pkgStatus_seen: "pkgStatus db pkg cond info = Ret (s, info') \<Longrightarrow> i_seen info' = i_seen info"
  by (auto simp: pkgStatus_def with_version_def split: if_splits option.splits)

lemma item_packages_seen: "item_packages db cond ps info = Ret (ss, info') \<Longrightarrow> i_seen info' = i_seen info"
  by (induction ps arbitrary: info ss info') (auto simp: js_ret dest: pkgStatus_seen split: prod.splits)

lemma item_packages_throws: "item_packages db cond ps info = Throw e \<Longrightarrow> e = ''TypeError''" "item_packages db cond ps info \<noteq> Hang"
proof -
  have p: "pkgStatus db pkg cond i = Throw e \<Longrightarrow> e = ''TypeError''" "pkgStatus db pkg cond i \<noteq> Hang" for pkg i e
    by (auto simp: pkgStatus_def with_version_def split: if_splits option.splits)
  show "item_packages db cond ps info = Throw e \<Longrightarrow> e = ''TypeError''"
    using p by (induction ps arbitrary: info) (auto simp: jbind_def split: jsret.splits)
  show "item_packages db cond ps info \<noteq> Hang"
    using p by (induction ps arbitrary: info) (auto simp: jbind_def split: jsret.splits)
qed

lemma item_not_hang:
  "(\<And>ss info1. item_packages db cond ps info = Ret (ss, info1) \<Longrightarrow> f (ss, info1) \<noteq> Hang) \<Longrightarrow> jbind (item_packages db cond ps info) f \<noteq> Hang"
  using item_packages_throws(2) [of db cond ps info] by (cases "item_packages db cond ps info") auto

section \<open>What resolving does\<close>

type_synonym resolver = "string list \<Rightarrow> dep_info \<Rightarrow> (dep_tree list \<times> dep_info) jsret"

text \<open>The contract of a resolver: what it was given is seen afterwards, with everything new also its own dependencies, and
  everything new could be reached.\<close>

locale dep_resolver =
  fixes inherited :: "string \<Rightarrow> bool" and db :: opkg_db and sub :: resolver
  assumes covers: "sub ds info = Ret (ts, info') \<Longrightarrow> dep_names inherited ds \<union> seen_names info \<subseteq> seen_names info'"
    and closes: "sub ds info = Ret (ts, info') \<Longrightarrow> n \<in> seen_names info' \<Longrightarrow> n \<notin> seen_names info \<Longrightarrow>
      dep_names inherited (item_depends (providers_of db n)) \<subseteq> seen_names info' \<and> reach inherited db (dep_names inherited ds) n"
    and throws: "sub ds info = Throw e \<Longrightarrow> e = ''TypeError'' \<or> e = ''RangeError''"
begin

lemma item_resolved:
  assumes "renderDependencyItem sub db False dep (provider_names db dep) cond info = Ret (t, info')" "dep \<in> seen_names info"
  shows "dep_names inherited (item_depends (providers_of db dep)) \<union> seen_names info \<subseteq> seen_names info' \<and>
    (\<forall>n \<in> seen_names info' - seen_names info. dep_names inherited (item_depends (providers_of db n)) \<subseteq> seen_names info' \<and>
       reach inherited db (dep_names inherited (item_depends (providers_of db dep))) n)"
proof -
  from assms(1) obtain ss info1 ts where 1: "i_seen info1 = i_seen info"
    and 2: "sub (item_depends (providers_of db dep)) info1 = Ret (ts, info')"
    by (auto simp: renderDependencyItem_def providers_of_def [symmetric] Let_def js_ret dest: item_packages_seen split: prod.splits)
  have "seen_names info1 = seen_names info" using 1 by (simp add: seen_names_def)
  then show ?thesis using covers [OF 2] closes [OF 2] by auto
qed

lemma each_resolved:
  "render_each inherited sub db False ds info = Ret (ts, info') \<Longrightarrow>
     dep_names inherited ds \<union> seen_names info \<subseteq> seen_names info' \<and>
     (\<forall>n \<in> seen_names info' - seen_names info. dep_names inherited (item_depends (providers_of db n)) \<subseteq> seen_names info' \<and>
        reach inherited db (dep_names inherited ds) n)"
proof (induction ds arbitrary: info ts info')
  case Nil
  then show ?case by (simp add: dep_names_def)
next
  case (Cons d ds)
  obtain dep cond where p: "parse_dep d = (dep, cond)" by fastforce
  show ?case
  proof (cases "d = ''libc'' \<or> dep \<in> seen_names info \<or> inherited dep")
    case True
    have "d = ''libc'' \<or> oget (i_seen info) dep \<noteq> None \<or> inherited dep" using True by (simp add: seen_iff del: not_None_eq)
    then have r: "render_each inherited sub db False ds info = Ret (ts, info')"
      using Cons.prems p by (auto split: if_splits)
    note ih = Cons.IH [OF r]
    have "dep_names inherited (d # ds) \<subseteq> insert dep (dep_names inherited ds)" "dep_names inherited ds \<subseteq> dep_names inherited (d # ds)"
      "d = ''libc'' \<or> inherited dep \<Longrightarrow> dep_names inherited (d # ds) \<subseteq> dep_names inherited ds"
      using p by (auto simp: dep_names_def)
    then show ?thesis using ih True by (auto intro: reach_mono)
  next
    case False
    let ?info = "info\<lparr>i_seen := oset dep (provider_names db dep, cond) (i_seen info)\<rparr>"
    have unseen: "oget (i_seen info) dep = None" using False seen_iff [of info dep] by blast
    from Cons.prems False p unseen obtain t info1 us where
      i: "renderDependencyItem sub db False dep (provider_names db dep) cond ?info = Ret (t, info1)" and
      r: "render_each inherited sub db False ds info1 = Ret (us, info')"
      by (auto simp: Let_def js_ret split: if_splits prod.splits)
    have names: "dep_names inherited (d # ds) = insert dep (dep_names inherited ds)"
      using p False by (auto simp: dep_names_def)
    have root: "reach inherited db (dep_names inherited (d # ds)) dep" by (rule reach.root) (simp add: names)
    note a = item_resolved [OF i, unfolded seen_mark, simplified]
    note b = Cons.IH [OF r]
    have m: "reach inherited db (dep_names inherited ds) n \<Longrightarrow> reach inherited db (dep_names inherited (d # ds)) n" for n
      by (rule reach_mono) (auto simp: names)
    have "dep_names inherited (item_depends (providers_of db n)) \<subseteq> seen_names info' \<and> reach inherited db (dep_names inherited (d # ds)) n"
      if n: "n \<in> seen_names info'" "n \<notin> seen_names info" for n
    proof (cases "n \<in> seen_names info1")
      case True
      have le: "seen_names info1 \<subseteq> seen_names info'" using b by simp
      show ?thesis
      proof (cases "n = dep")
        case True
        then show ?thesis using a le root by auto
      next
        case False
        then have "dep_names inherited (item_depends (providers_of db n)) \<subseteq> seen_names info1"
          "reach inherited db (dep_names inherited (item_depends (providers_of db dep))) n"
          using a True n(2) by simp_all
        then show ?thesis using le reach_from [OF _ root] by auto
      qed
    next
      case False
      then show ?thesis using n b m by simp
    qed
    moreover have "dep_names inherited (d # ds) \<union> seen_names info \<subseteq> seen_names info'"
      unfolding names using a b by auto
    ultimately show ?thesis by simp
  qed
qed

lemma each_throws: "render_each inherited sub db False ds info = Throw e \<Longrightarrow> e = ''TypeError'' \<or> e = ''RangeError''"
proof (induction ds arbitrary: info)
  case (Cons d ds)
  have i: "renderDependencyItem sub db False dep names cond i = Throw e \<Longrightarrow> e = ''TypeError'' \<or> e = ''RangeError''" for dep names cond i
    by (auto simp: renderDependencyItem_def Let_def jbind_def split: jsret.splits dest: throws item_packages_throws(1))
  show ?case using Cons i by (auto simp: Let_def jbind_def split: if_splits prod.splits jsret.splits)
qed simp

text \<open>As long as the calls for single dependencies return, the loop does, since each of them has one dependency less to
  see.\<close>

lemma each_returns:
  assumes "finite U" and U: "\<And>n. n \<in> U \<Longrightarrow> dep_names inherited (item_depends (providers_of db n)) \<subseteq> U"
    and sub: "\<And>ds info. dep_names inherited ds \<subseteq> U \<Longrightarrow> card (U - seen_names info) < k \<Longrightarrow> sub ds info \<noteq> Hang"
  shows "dep_names inherited ds \<subseteq> U \<Longrightarrow> card (U - seen_names info) < Suc k \<Longrightarrow> render_each inherited sub db False ds info \<noteq> Hang"
proof (induction ds arbitrary: info)
  case (Cons d ds)
  obtain dep cond where p: "parse_dep d = (dep, cond)" by fastforce
  have ds: "dep_names inherited ds \<subseteq> U" using Cons.prems(1) by (auto simp: dep_names_def)
  show ?case
  proof (cases "d = ''libc'' \<or> oget (i_seen info) dep \<noteq> None \<or> inherited dep \<or> dep = ''length''")
    case True
    then show ?thesis using Cons.IH [OF ds Cons.prems(2)] p by auto
  next
    case False
    let ?info = "info\<lparr>i_seen := oset dep (provider_names db dep, cond) (i_seen info)\<rparr>"
    have dep: "dep \<in> U" using Cons.prems(1) False p by (auto simp: dep_names_def)
    have new: "dep \<notin> seen_names info" using False seen_iff [of info dep] by blast
    have "U - seen_names ?info \<subset> U - seen_names info" unfolding seen_mark using dep new by blast
    then have "card (U - seen_names ?info) < card (U - seen_names info)" using assms(1) by (intro psubset_card_mono) simp_all
    then have c: "card (U - seen_names ?info) < k" using Cons.prems(2) by linarith
    have i: "renderDependencyItem sub db False dep (provider_names db dep) cond ?info \<noteq> Hang"
    proof -
      have "sub (item_depends (providers_of db dep)) info1 \<noteq> Hang" if "i_seen info1 = i_seen ?info" for info1
        using sub [OF U [OF dep], of info1] c that by (simp add: seen_names_def)
      then have s: "i_seen info1 = i_seen ?info \<Longrightarrow> jbind (sub (item_depends (providers_of db dep)) info1) (\<lambda>(ts, info2). Ret (DepItem dep ss ts, info2)) \<noteq> Hang" for ss info1
        by (auto simp: jbind_def split: jsret.splits)
      show ?thesis
        unfolding renderDependencyItem_def providers_of_def [symmetric] Let_def
        by (intro item_not_hang) (auto dest: item_packages_seen intro!: s)
    qed
    have "render_each inherited sub db False ds info1 \<noteq> Hang"
      if r: "renderDependencyItem sub db False dep (provider_names db dep) cond ?info = Ret (t, info1)" for t info1
    proof (rule Cons.IH [OF ds])
      have "seen_names info \<subseteq> seen_names info1" using item_resolved [OF r] by (auto simp: seen_mark)
      then have "card (U - seen_names info1) \<le> card (U - seen_names info)" using assms(1) by (intro card_mono) auto
      then show "card (U - seen_names info1) < Suc k" using Cons.prems(2) by simp
    qed
    moreover have "render_each inherited sub db False (d # ds) info =
        jbind (renderDependencyItem sub db False dep (provider_names db dep) cond ?info) (\<lambda>(t, info1).
        jbind (render_each inherited sub db False ds info1) (\<lambda>(ts, info2). Ret (t # ts, info2)))"
      using False p by (simp add: Let_def)
    ultimately show ?thesis using i by (auto simp: jbind_def split: jsret.splits)
  qed
qed simp

end

interpretation rd: dep_resolver inherited db "renderDependencies inherited n db False"
proof (induction n)
  case 0
  show ?case by unfold_locales simp_all
next
  case (Suc n)
  show ?case
    by unfold_locales (use dep_resolver.each_resolved [OF Suc.IH] dep_resolver.each_throws [OF Suc.IH] in auto)
qed

section \<open>The names that can be met\<close>

definition db_wf :: "opkg_db \<Rightarrow> bool" where
  "db_wf db \<longleftrightarrow> list_all (\<lambda>(_, p). p < length (o_heap db)) (d_pkgs (o_installed db) @ d_pkgs (o_available db))"

definition all_depends :: "opkg_db \<Rightarrow> string list" where
  "all_depends db = concat (map (pkg_list ''depends'') (o_heap db))"

definition dep_fuel :: "opkg_db \<Rightarrow> string list \<Rightarrow> nat" where
  "dep_fuel db deps = Suc (length deps + length (all_depends db))"

lemma set_remdups_acc: "set (remdups_acc acc xs) = set acc \<union> set xs"
  by (induction xs arbitrary: acc) auto

lemma lookup_depends:
  assumes "db_wf db"
  shows "set (pkg_list ''depends'' (lookup_pkg db dep n)) \<subseteq> set (all_depends db)"
proof -
  have h: "set (pkg_list ''depends'' (o_heap db ! p)) \<subseteq> set (all_depends db)" if "p < length (o_heap db)" for p
    using nth_mem [OF that] by (auto simp: all_depends_def)
  have i: "p < length (o_heap db)" if "oget (d_pkgs (o_installed db)) n = Some p \<or> oget (d_pkgs (o_available db)) n = Some p" for p
    using that assms by (auto simp: db_wf_def oget_def list_all_iff dest: map_of_SomeD)
  have "pkg_list ''depends'' [(''name'', OStr dep)] = []" by (simp add: pkg_list_def oget_def)
  then show ?thesis using h i by (auto simp: lookup_pkg_def split: option.splits)
qed

lemma depends_known:
  assumes "db_wf db"
  shows "dep_names inherited (item_depends (providers_of db n)) \<subseteq> dep_names inherited (all_depends db)"
  using lookup_depends [OF assms] by (auto simp: dep_names_def item_depends_def providers_of_def set_remdups_acc)

lemma card_dep_names: "finite (dep_names inherited ds) \<and> card (dep_names inherited ds) \<le> length ds"
proof -
  have "dep_names inherited ds \<subseteq> (\<lambda>d. fst (parse_dep d)) ` set ds" by (auto simp: dep_names_def)
  moreover have "card ((\<lambda>d. fst (parse_dep d)) ` set ds) \<le> length ds"
    using card_image_le [of "set ds" "\<lambda>d. fst (parse_dep d)"] card_length [of ds] by simp
  ultimately show ?thesis by (meson card_mono finite_imageI finite_set finite_subset le_trans)
qed

lemma renderDependencies_returns:
  assumes U: "finite U" "\<And>n. n \<in> U \<Longrightarrow> dep_names inherited (item_depends (providers_of db n)) \<subseteq> U"
  shows "dep_names inherited ds \<subseteq> U \<Longrightarrow> card (U - seen_names info) < k \<Longrightarrow> renderDependencies inherited k db False ds info \<noteq> Hang"
proof (induction k arbitrary: ds info)
  case (Suc k)
  then show ?case using rd.each_returns [OF U, where k = k and ds = ds and info = info] by simp
qed simp

text \<open>C12. Resolving the dependencies of a package ends, and when it does not throw, the dependencies recorded as seen are
  exactly those that can be reached from the given ones over the packages that provide them.  The fuel needed is the
  number of dependency entries of all packages; a dependency that bears the name of an array method is never followed.\<close>

theorem dependencies_resolved:
  assumes "db_wf db" "dep_fuel db deps \<le> fuel" "i_seen info = []"
  shows "case renderDependencies inherited fuel db False deps info of
      Ret (ts, info') \<Rightarrow> (\<forall>n. n \<in> seen_names info' \<longleftrightarrow> reach inherited db (dep_names inherited deps) n)
    | Throw e \<Rightarrow> e = ''TypeError'' \<or> e = ''RangeError''
    | Hang \<Rightarrow> False"
proof -
  let ?U = "dep_names inherited deps \<union> dep_names inherited (all_depends db)"
  have none: "seen_names info = {}" using assms(3) by (simp add: seen_names_def okeys_def)
  have "card ?U \<le> length deps + length (all_depends db)"
    using card_Un_le [of "dep_names inherited deps" "dep_names inherited (all_depends db)"] card_dep_names [of inherited deps]
      card_dep_names [of inherited "all_depends db"] by linarith
  then have "renderDependencies inherited fuel db False deps info \<noteq> Hang"
    using card_dep_names depends_known [OF assms(1), of inherited] assms(2) none
    by (intro renderDependencies_returns [of ?U]) (auto simp: dep_fuel_def)
  moreover have "n \<in> seen_names info' \<longleftrightarrow> reach inherited db (dep_names inherited deps) n"
    if r: "renderDependencies inherited fuel db False deps info = Ret (ts, info')" for ts info' n
  proof
    assume "n \<in> seen_names info'"
    then show "reach inherited db (dep_names inherited deps) n" using rd.closes [OF r] none by simp
  next
    assume "reach inherited db (dep_names inherited deps) n"
    then show "n \<in> seen_names info'"
      using rd.covers [OF r] rd.closes [OF r] none by (induction rule: reach.induct) blast+
  qed
  ultimately show ?thesis using rd.throws by (auto split: jsret.splits)
qed

definition opkg_sample :: opkg_db where
  "opkg_sample = \<lparr>o_heap = [[(''name'', OStr ''a''), (''depends'', OList [''libc'', ''b (>= 2)''])],
      [(''name'', OStr ''b''), (''version'', OStr ''2.1''), (''depends'', OList [''a'', ''c''])]],
     o_available = \<lparr>d_pkgs = [(''a'', 0), (''b'', 1)], d_providers = [(''a'', [0]), (''b'', [1])]\<rparr>,
     o_installed = \<lparr>d_pkgs = [], d_providers = []\<rparr>\<rparr>"

definition no_info :: dep_info where
  "no_info = \<lparr>i_seen = [], i_errors = [], i_install = []\<rparr>"

theorem dependencies_resolved_witness:
  "reach (\<lambda>_. False) opkg_sample (dep_names (\<lambda>_. False) [''a'']) ''c'' \<and>
   (case renderDependencies (\<lambda>_. False) 6 opkg_sample False [''a''] no_info of
      Ret (ts, info) \<Rightarrow> i_errors info = [DependencyMissing ''c''] \<and> map pkg_name (i_install info) = [''a'', ''b'']
    | _ \<Rightarrow> False)"
proof -
  let ?r = "renderDependencies (\<lambda>_. False) 6 opkg_sample False [''a''] no_info"
  have w: "db_wf opkg_sample" "dep_fuel opkg_sample [''a''] \<le> 6" "i_seen no_info = []"
    by (code_simp, code_simp, simp add: no_info_def)
  have c: "case ?r of Ret (ts, info) \<Rightarrow> ''c'' \<in> set (okeys (i_seen info)) \<and> i_errors info = [DependencyMissing ''c''] \<and>
      map pkg_name (i_install info) = [''a'', ''b''] | _ \<Rightarrow> False" by code_simp
  then obtain ts info where r: "?r = Ret (ts, info)" by (auto split: jsret.splits)
  have "reach (\<lambda>_. False) opkg_sample (dep_names (\<lambda>_. False) [''a'']) ''c''"
    using dependencies_resolved [OF w, of "\<lambda>_. False"] c unfolding r by (simp add: seen_names_def)
  then show ?thesis using c unfolding r by simp
qed

section \<open>Providers\<close>

lemma add_provider_get:
  "oget (add_provider p m ps) n = (if n = m then Some ((case oget ps n of Some l \<Rightarrow> l | None \<Rightarrow> []) @ [p]) else oget ps n)"
  by (simp add: add_provider_def)

lemma add_providers_get:
  "oget (fold (add_provider p) ms ps) n = (if n \<in> set ms
     then Some ((case oget ps n of Some l \<Rightarrow> l | None \<Rightarrow> []) @ replicate (count_list ms n) p) else oget ps n)"
proof (induction ms arbitrary: ps)
  case (Cons m ms)
  have z: "n \<notin> set ms \<Longrightarrow> count_list ms n = 0" by (simp add: count_list_0_iff)
  show ?case
    by (simp add: Cons.IH add_provider_get z split: option.splits)
qed simp

definition shadowing_list :: string where
  "shadowing_list = concat (map (\<lambda>l. l @ [char_of (10 :: nat)])
     [''Package: alt'', ''Provides: dns'', [], ''Package: dns'', ''Version: 1'', []])"

text \<open>C33. Storing a parsed package makes it the package of its name and a provider of every name it declares, but of its own
  name only if no package provides that name yet: when an earlier package of the list provides the name of a later one,
  dependencies on that name are never resolved to the package that bears it.\<close>

theorem store_package_providers:
  "oget (d_pkgs (store_package_entry p pkg d)) n = (if n = pkg_name pkg then Some p else oget (d_pkgs d) n) \<and>
   oget (d_providers (store_package_entry p pkg d)) n =
     (let k = count_list (pkg_list ''provides'' pkg) n + (if n = pkg_name pkg \<and> oget (d_providers d) n = None then 1 else 0)
      in if k = 0 then oget (d_providers d) n
         else Some ((case oget (d_providers d) n of Some l \<Rightarrow> l | None \<Rightarrow> []) @ replicate k p)) \<and>
   (case parseList shadowing_list [] \<lparr>d_pkgs = [], d_providers = []\<rparr> of
      Ret st \<Rightarrow> d_pkgs (ps_dest st) = [(''alt'', 0), (''dns'', 1)] \<and> d_providers (ps_dest st) = [(''alt'', [0]), (''dns'', [0])]
    | _ \<Rightarrow> False)"
proof -
  have "count_list (pkg_list ''provides'' pkg) n = 0 \<longleftrightarrow> n \<notin> set (pkg_list ''provides'' pkg)" by (rule count_list_0_iff)
  then have "oget (d_providers (store_package_entry p pkg d)) n =
     (let k = count_list (pkg_list ''provides'' pkg) n + (if n = pkg_name pkg \<and> oget (d_providers d) n = None then 1 else 0)
      in if k = 0 then oget (d_providers d) n
         else Some ((case oget (d_providers d) n of Some l \<Rightarrow> l | None \<Rightarrow> []) @ replicate k p))"
    by (auto simp: store_package_entry_def Let_def add_providers_get add_provider_get)
  moreover have "oget (d_pkgs (store_package_entry p pkg d)) n = (if n = pkg_name pkg then Some p else oget (d_pkgs d) n)"
    by (simp add: store_package_entry_def Let_def)
  moreover have "case parseList shadowing_list [] \<lparr>d_pkgs = [], d_providers = []\<rparr> of
      Ret st \<Rightarrow> d_pkgs (ps_dest st) = [(''alt'', 0), (''dns'', 1)] \<and> d_providers (ps_dest st) = [(''alt'', [0]), (''dns'', [0])]
    | _ \<Rightarrow> False" by code_simp
  ultimately show ?thesis by simp
qed

end
